theory Spec2Isabelle
  imports Complex_Main
begin

text \<open>
  The probability engine of PolyBitArbitrageAI: the strike extractor, the volatility
  selector, the closed-form and the simulated estimator of \<open>utils/math.ts\<close>, and the
  edge, the liquidity flag and the estimation effect of the analysis panel. Each source
  function is a definition of the same name; the theorems are stated on these definitions.
\<close>

section \<open>JavaScript numbers\<close>

text \<open>
  The program computes with JavaScript numbers. A number is modelled as a finite value,
  one of the two infinities, or NaN. The special values follow IEEE 754 as JavaScript
  applies it: division by zero gives an infinity or NaN, \<open>Math.log(0)\<close> is
  \<open>-Infinity\<close>, every comparison with NaN is false. Finite values are exact reals:
  rounding and the sign of zero are not modelled (zero is the positive zero, which is the
  only zero the callers pass). A value beyond the range of doubles is an infinity, and one
  too small for a double is zero, where a number is read from a text, by \<open>parseFloat\<close>,
  and in the product that \<open>extractStrikePrice\<close> returns; the other arithmetic results
  are not cut to the range.
\<close>

datatype number = Fin real | PosInf | NegInf | NaN

definition inf_of_sign :: "real \<Rightarrow> number" where
  "inf_of_sign a = (if 0 < a then PosInf else if a < 0 then NegInf else NaN)"

fun js_neg :: "number \<Rightarrow> number" where
  "js_neg (Fin a) = Fin (- a)"
| "js_neg PosInf = NegInf"
| "js_neg NegInf = PosInf"
| "js_neg NaN = NaN"

fun js_add :: "number \<Rightarrow> number \<Rightarrow> number" where
  "js_add NaN _ = NaN"
| "js_add _ NaN = NaN"
| "js_add (Fin a) (Fin b) = Fin (a + b)"
| "js_add PosInf NegInf = NaN"
| "js_add NegInf PosInf = NaN"
| "js_add PosInf _ = PosInf"
| "js_add _ PosInf = PosInf"
| "js_add NegInf _ = NegInf"
| "js_add _ NegInf = NegInf"

definition js_sub :: "number \<Rightarrow> number \<Rightarrow> number" where
  "js_sub a b = js_add a (js_neg b)"

fun js_mul :: "number \<Rightarrow> number \<Rightarrow> number" where
  "js_mul NaN _ = NaN"
| "js_mul _ NaN = NaN"
| "js_mul (Fin a) (Fin b) = Fin (a * b)"
| "js_mul (Fin a) PosInf = inf_of_sign a"
| "js_mul (Fin a) NegInf = inf_of_sign (- a)"
| "js_mul PosInf (Fin b) = inf_of_sign b"
| "js_mul NegInf (Fin b) = inf_of_sign (- b)"
| "js_mul PosInf PosInf = PosInf"
| "js_mul NegInf NegInf = PosInf"
| "js_mul PosInf NegInf = NegInf"
| "js_mul NegInf PosInf = NegInf"

fun js_div :: "number \<Rightarrow> number \<Rightarrow> number" where
  "js_div NaN _ = NaN"
| "js_div _ NaN = NaN"
| "js_div (Fin a) (Fin b) = (if b = 0 then inf_of_sign a else Fin (a / b))"
| "js_div (Fin a) PosInf = Fin 0"
| "js_div (Fin a) NegInf = Fin 0"
| "js_div PosInf (Fin b) = (if 0 \<le> b then PosInf else NegInf)"
| "js_div NegInf (Fin b) = (if 0 \<le> b then NegInf else PosInf)"
| "js_div PosInf PosInf = NaN"
| "js_div PosInf NegInf = NaN"
| "js_div NegInf PosInf = NaN"
| "js_div NegInf NegInf = NaN"

text \<open>The relational operators (less, less or equal, greater, greater or equal, strict equality) on numbers.\<close>

fun js_lt :: "number \<Rightarrow> number \<Rightarrow> bool" where
  "js_lt NaN _ = False"
| "js_lt _ NaN = False"
| "js_lt (Fin a) (Fin b) = (a < b)"
| "js_lt _ NegInf = False"
| "js_lt PosInf _ = False"
| "js_lt NegInf _ = True"
| "js_lt _ PosInf = True"

fun js_le :: "number \<Rightarrow> number \<Rightarrow> bool" where
  "js_le NaN _ = False"
| "js_le _ NaN = False"
| "js_le (Fin a) (Fin b) = (a \<le> b)"
| "js_le NegInf _ = True"
| "js_le _ PosInf = True"
| "js_le _ NegInf = False"
| "js_le PosInf _ = False"

definition js_gt :: "number \<Rightarrow> number \<Rightarrow> bool" where
  "js_gt a b = js_lt b a"

definition js_ge :: "number \<Rightarrow> number \<Rightarrow> bool" where
  "js_ge a b = js_le b a"

definition js_eq :: "number \<Rightarrow> number \<Rightarrow> bool" where
  "js_eq a b = (a \<noteq> NaN \<and> a = b)"

text \<open>Truthiness of a number: \<open>0\<close> and NaN are falsy.\<close>

definition truthy :: "number \<Rightarrow> bool" where
  "truthy a = (a \<noteq> Fin 0 \<and> a \<noteq> NaN)"

subsection \<open>The functions of \<open>Math\<close> the program calls\<close>

definition Math_PI :: number where
  "Math_PI = Fin pi"

fun Math_log :: "number \<Rightarrow> number" where
  "Math_log (Fin x) = (if 0 < x then Fin (ln x) else if x = 0 then NegInf else NaN)"
| "Math_log PosInf = PosInf"
| "Math_log NegInf = NaN"
| "Math_log NaN = NaN"

fun Math_exp :: "number \<Rightarrow> number" where
  "Math_exp (Fin x) = Fin (exp x)"
| "Math_exp PosInf = PosInf"
| "Math_exp NegInf = Fin 0"
| "Math_exp NaN = NaN"

fun Math_sqrt :: "number \<Rightarrow> number" where
  "Math_sqrt (Fin x) = (if 0 \<le> x then Fin (sqrt x) else NaN)"
| "Math_sqrt PosInf = PosInf"
| "Math_sqrt NegInf = NaN"
| "Math_sqrt NaN = NaN"

fun Math_cos :: "number \<Rightarrow> number" where
  "Math_cos (Fin x) = Fin (cos x)"
| "Math_cos PosInf = NaN"
| "Math_cos NegInf = NaN"
| "Math_cos NaN = NaN"

fun Math_abs :: "number \<Rightarrow> number" where
  "Math_abs (Fin x) = Fin \<bar>x\<bar>"
| "Math_abs PosInf = PosInf"
| "Math_abs NegInf = PosInf"
| "Math_abs NaN = NaN"

fun Math_ceil :: "number \<Rightarrow> number" where
  "Math_ceil (Fin x) = Fin (of_int \<lceil>x\<rceil>)"
| "Math_ceil PosInf = PosInf"
| "Math_ceil NegInf = NegInf"
| "Math_ceil NaN = NaN"

definition Math_max :: "number \<Rightarrow> number \<Rightarrow> number" where
  "Math_max a b = (if a = NaN \<or> b = NaN then NaN else if js_lt a b then b else a)"

text \<open>\<open>Math.pow(t, n)\<close> for the literal exponents 2 to 5 of the source.\<close>

fun Math_pow :: "number \<Rightarrow> nat \<Rightarrow> number" where
  "Math_pow x 0 = Fin 1"
| "Math_pow x (Suc n) = js_mul x (Math_pow x n)"

section \<open>Strings\<close>

text \<open>
  Texts are modelled as lists of 8-bit characters: the texts the program reads (market
  questions, instrument names) are taken to be ASCII. The functions below are the parts
  of the JavaScript string library the program calls.
\<close>

definition is_digit :: "char \<Rightarrow> bool" where
  "is_digit c = (c \<in> set ''0123456789'')"

definition is_space :: "char \<Rightarrow> bool" where
  "is_space c = (c \<in> set [CHR '' '', CHR 0x09, CHR 0x0A, CHR 0x0B, CHR 0x0C, CHR 0x0D])"

definition is_upper :: "char \<Rightarrow> bool" where
  "is_upper c = (c \<in> set ''ABCDEFGHIJKLMNOPQRSTUVWXYZ'')"

definition is_lower :: "char \<Rightarrow> bool" where
  "is_lower c = (c \<in> set ''abcdefghijklmnopqrstuvwxyz'')"

text \<open>A word character of a regular expression, \<open>[A-Za-z0-9_]\<close>.\<close>

definition is_word_char :: "char \<Rightarrow> bool" where
  "is_word_char c = (is_digit c \<or> is_upper c \<or> is_lower c \<or> c = CHR ''_'')"

definition digit_val :: "char \<Rightarrow> nat" where
  "digit_val c = of_char c - 48"

definition digits_val :: "string \<Rightarrow> nat" where
  "digits_val cs = foldl (\<lambda>a c. 10 * a + digit_val c) 0 cs"

text \<open>\<open>String.prototype.toLowerCase\<close> on ASCII.\<close>

definition lower_char :: "char \<Rightarrow> char" where
  "lower_char c =
     (case map_of (zip ''ABCDEFGHIJKLMNOPQRSTUVWXYZ'' ''abcdefghijklmnopqrstuvwxyz'') c of
        None \<Rightarrow> c
      | Some l \<Rightarrow> l)"

definition toLowerCase :: "string \<Rightarrow> string" where
  "toLowerCase s = map lower_char s"

text \<open>\<open>s.split(c)\<close> for a separator of one character: never an empty array.\<close>

fun split_on :: "char \<Rightarrow> string \<Rightarrow> string list" where
  "split_on c [] = [[]]"
| "split_on c (x # xs) =
     (if x = c then [] # split_on c xs
      else (case split_on c xs of p # ps \<Rightarrow> (x # p) # ps | [] \<Rightarrow> [[x]]))"

text \<open>Reading an array at an index: \<open>undefined\<close> out of range.\<close>

definition nth_opt :: "'a list \<Rightarrow> nat \<Rightarrow> 'a option" where
  "nth_opt xs i = (if i < length xs then Some (xs ! i) else None)"

subsection \<open>parseFloat\<close>

text \<open>
  \<open>parseFloat\<close> skips leading white space and reads the longest prefix that is a
  decimal literal: an optional sign, then \<open>Infinity\<close>, or digits with an optional
  fraction and an optional exponent. Without such a prefix the result is NaN.
\<close>

definition pow10 :: "int \<Rightarrow> real" where
  "pow10 e = (if 0 \<le> e then 10 ^ nat e else 1 / 10 ^ nat (- e))"

text \<open>The exponent part at the start of a string; 0 when there is none.\<close>

definition exponent_digits :: "string \<Rightarrow> int option" where
  "exponent_digits s =
     (if takeWhile is_digit s = [] then None else Some (int (digits_val (takeWhile is_digit s))))"

definition parse_exponent :: "string \<Rightarrow> int" where
  "parse_exponent s =
     (case s of
        [] \<Rightarrow> 0
      | e # r \<Rightarrow>
          if e = CHR ''e'' \<or> e = CHR ''E'' then
            (case r of
               [] \<Rightarrow> 0
             | sg # r' \<Rightarrow>
                 if sg = CHR ''-'' then (case exponent_digits r' of None \<Rightarrow> 0 | Some n \<Rightarrow> - n)
                 else if sg = CHR ''+'' then (case exponent_digits r' of None \<Rightarrow> 0 | Some n \<Rightarrow> n)
                 else (case exponent_digits r of None \<Rightarrow> 0 | Some n \<Rightarrow> n))
          else 0)"

text \<open>
  The double a decimal value that is not negative is read as: an infinity from
  \<open>2^1024 - 2^970\<close> on, half a unit above the largest double, and zero up to
  \<open>2^-1075\<close>, half the smallest double above zero.
\<close>

definition read_double :: "real \<Rightarrow> number" where
  "read_double x =
     (if 2 ^ 1024 - 2 ^ 970 \<le> x then PosInf else if x \<le> 1 / 2 ^ 1075 then Fin 0 else Fin x)"

text \<open>An arithmetic result as a double: beyond the range it is an infinity.\<close>

definition to_double :: "number \<Rightarrow> number" where
  "to_double a =
     (case a of
        Fin x \<Rightarrow> if 0 \<le> x then read_double x else js_neg (read_double (- x))
      | PosInf \<Rightarrow> PosInf
      | NegInf \<Rightarrow> NegInf
      | NaN \<Rightarrow> NaN)"

definition parse_unsigned :: "string \<Rightarrow> number" where
  "parse_unsigned s =
     (if take 8 s = ''Infinity'' then PosInf
      else
        (let ip = takeWhile is_digit s;
             r = dropWhile is_digit s;
             fp = (case r of [] \<Rightarrow> [] | c # r' \<Rightarrow> if c = CHR ''.'' then takeWhile is_digit r' else []);
             r2 = (case r of [] \<Rightarrow> [] | c # r' \<Rightarrow> if c = CHR ''.'' then dropWhile is_digit r' else r)
         in if ip = [] \<and> fp = [] then NaN
            else read_double ((real (digits_val ip) + real (digits_val fp) / 10 ^ length fp) *
                              pow10 (parse_exponent r2))))"

definition parseFloat :: "string \<Rightarrow> number" where
  "parseFloat s =
     (case dropWhile is_space s of
        [] \<Rightarrow> NaN
      | c # r \<Rightarrow>
          if c = CHR ''-'' then js_neg (parse_unsigned r)
          else if c = CHR ''+'' then parse_unsigned r
          else parse_unsigned (c # r))"

text \<open>
  \<open>parseFloat\<close> of an array element: \<open>undefined\<close> is converted to the text
  \<open>undefined\<close>, which has no numeric prefix.
\<close>

definition parseFloat_arg :: "string option \<Rightarrow> number" where
  "parseFloat_arg v = (case v of None \<Rightarrow> parseFloat ''undefined'' | Some s \<Rightarrow> parseFloat s)"

subsection \<open>Array.prototype.sort\<close>

text \<open>
  \<open>sort\<close> with a comparator is stable (ECMAScript 2019), and a NaN from the comparator
  counts as 0. For a comparator that orders the elements consistently the result is
  determined: the stable ordering. The model inserts the elements from the right, each
  before the first element it does not compare greater than.
\<close>

fun insert_sorted :: "('a \<Rightarrow> 'a \<Rightarrow> number) \<Rightarrow> 'a \<Rightarrow> 'a list \<Rightarrow> 'a list" where
  "insert_sorted cmp x [] = [x]"
| "insert_sorted cmp x (y # ys) =
     (if js_gt (cmp x y) (Fin 0) then y # insert_sorted cmp x ys else x # y # ys)"

definition js_sort :: "('a \<Rightarrow> 'a \<Rightarrow> number) \<Rightarrow> 'a list \<Rightarrow> 'a list" where
  "js_sort cmp xs = foldr (insert_sorted cmp) xs []"

section \<open>utils/math.ts\<close>

subsection \<open>normalCDF\<close>

function normalCDF :: "number \<Rightarrow> number" where
  "normalCDF x =
     (if js_lt x (Fin 0) then js_sub (Fin 1) (normalCDF (js_neg x))
      else
        (let t = js_div (Fin 1) (js_add (Fin 1) (js_mul (Fin (2316419 / 10000000)) x))
         in js_sub (Fin 1)
              (js_mul
                 (js_mul (js_div (Fin 1) (Math_sqrt (js_mul (Fin 2) Math_PI)))
                    (Math_exp (js_mul (js_mul (Fin (- (1 / 2))) x) x)))
                 (js_add
                    (js_add
                       (js_add
                          (js_add (js_mul (Fin (31938153 / 100000000)) t)
                             (js_mul (Fin (- (356563782 / 1000000000))) (Math_pow t 2)))
                          (js_mul (Fin (1781477937 / 1000000000)) (Math_pow t 3)))
                       (js_mul (Fin (- (1821255978 / 1000000000))) (Math_pow t 4)))
                    (js_mul (Fin (1330274429 / 1000000000)) (Math_pow t 5))))))"
  by pat_completeness auto
termination
proof (relation "measure (\<lambda>x. if js_lt x (Fin 0) then 1 else 0)")
  show "wf (measure (\<lambda>x. if js_lt x (Fin 0) then 1 else (0::nat)))"
    by simp
next
  fix x :: number
  assume "js_lt x (Fin 0)"
  then show "(js_neg x, x) \<in> measure (\<lambda>x. if js_lt x (Fin 0) then 1 else 0)"
    by (cases x) auto
qed

declare normalCDF.simps [simp del]

subsection \<open>extractStrikePrice\<close>

text \<open>
  The two regular expressions are matched as the backtracking matcher does: from each
  start position from the left, greedily. \<open>take_number\<close> is the greedy match of
  \<open>\d+(\.\d+)?\<close> at the start of a text, with the rest of the text. After it nothing
  but one fixed character is asked for (or nothing at all), and giving back a digit or the
  fraction leaves a digit or a point in front of it, so backtracking finds no other match.
\<close>

definition take_number :: "string \<Rightarrow> (string \<times> string) option" where
  "take_number s =
     (let ip = takeWhile is_digit s; r = dropWhile is_digit s
      in if ip = [] then None
         else
           (case r of
              [] \<Rightarrow> Some (ip, r)
            | c # r' \<Rightarrow>
                if c = CHR ''.'' \<and> takeWhile is_digit r' \<noteq> []
                then Some (ip @ CHR ''.'' # takeWhile is_digit r', dropWhile is_digit r')
                else Some (ip, r)))"

text \<open>\<open>cleanText.match(/\$(\d+(\.\d+)?)/)\<close>: group 1 of the leftmost match.\<close>

fun dollar_match :: "string \<Rightarrow> string option" where
  "dollar_match [] = None"
| "dollar_match (c # s) =
     (if c = CHR ''$'' then (case take_number s of Some (n, r) \<Rightarrow> Some n | None \<Rightarrow> dollar_match s)
      else dollar_match s)"

text \<open>
  \<open>cleanText.match(/(\d+(\.\d+)?)k\b/)\<close>: group 1 of the leftmost match. After the
  \<open>k\<close> the text ends or goes on with a character that is no word character.
\<close>

definition k_match_at :: "string \<Rightarrow> string option" where
  "k_match_at s =
     (case take_number s of
        None \<Rightarrow> None
      | Some (n, r) \<Rightarrow>
          (case r of
             [] \<Rightarrow> None
           | c # r' \<Rightarrow>
               if c = CHR ''k'' \<and> (case r' of [] \<Rightarrow> True | c' # _ \<Rightarrow> \<not> is_word_char c')
               then Some n else None))"

fun k_match :: "string \<Rightarrow> string option" where
  "k_match [] = None"
| "k_match (c # s) = (case k_match_at (c # s) of Some n \<Rightarrow> Some n | None \<Rightarrow> k_match s)"

definition extractStrikePrice :: "string \<Rightarrow> number option" where
  "extractStrikePrice text =
     (if text = [] then None
      else
        (let cleanText = toLowerCase (filter (\<lambda>c. c \<noteq> CHR '','') text)
         in (case dollar_match cleanText of
               Some n \<Rightarrow> Some (parseFloat n)
             | None \<Rightarrow>
                 (case k_match cleanText of
                    Some n \<Rightarrow> Some (to_double (js_mul (parseFloat n) (Fin 1000)))
                  | None \<Rightarrow> None))))"

subsection \<open>calculateBlackScholesProb\<close>

text \<open>The default argument \<open>r = 0.04\<close> of both estimators.\<close>

definition default_r :: number where
  "default_r = Fin (4 / 100)"

definition calculateBlackScholesProb ::
  "number \<Rightarrow> number \<Rightarrow> number \<Rightarrow> number \<Rightarrow> number \<Rightarrow> number" where
  "calculateBlackScholesProb S K T sigma r =
     (if js_le T (Fin 0) then (if js_gt S K then Fin 1 else Fin 0)
      else
        (let d2 =
           js_div
             (js_add (Math_log (js_div S K))
                (js_mul (js_sub r (js_mul (js_mul (Fin (1 / 2)) sigma) sigma)) T))
             (js_mul sigma (Math_sqrt T))
         in normalCDF d2))"

subsection \<open>randn_bm\<close>

text \<open>
  \<open>Math.random()\<close> is the only effect of the module. The values it returns, in the
  order of the calls, are an explicit supply: a list of draws that each call pops. A run
  that asks for a draw when the supply is empty has no result (\<open>None\<close>); a loop that
  would run forever exhausts every finite supply. Every function that draws returns the
  rest of the supply with its value.
\<close>

text \<open>\<open>let u = 0; while (u === 0) u = Math.random();\<close>\<close>

fun draw_nonzero :: "real list \<Rightarrow> (real \<times> real list) option" where
  "draw_nonzero [] = None"
| "draw_nonzero (d # ds) = (if d = 0 then draw_nonzero ds else Some (d, ds))"

definition randn_bm :: "real list \<Rightarrow> (number \<times> real list) option" where
  "randn_bm ds =
     (case draw_nonzero ds of
        None \<Rightarrow> None
      | Some (u, ds1) \<Rightarrow>
          (case draw_nonzero ds1 of
             None \<Rightarrow> None
           | Some (v, ds2) \<Rightarrow>
               Some (js_mul (Math_sqrt (js_mul (Fin (- 2)) (Math_log (Fin u))))
                       (Math_cos (js_mul (js_mul (Fin 2) Math_PI) (Fin v))),
                     ds2)))"

lemma draw_nonzero_length:
  "draw_nonzero ds = Some (u, ds') \<Longrightarrow> length ds' < length ds"
  by (induction ds) (auto split: if_splits)

lemma randn_bm_length:
  "randn_bm ds = Some (z, ds') \<Longrightarrow> length ds' < length ds"
  unfolding randn_bm_def
  by (auto split: option.splits dest!: draw_nonzero_length)

subsection \<open>runMonteCarloSimulation\<close>

text \<open>
  The inner loop \<open>for (let j = 0; j < steps; j++)\<close> of one path, from the counter
  \<open>j\<close> and the price \<open>currentS\<close>. It returns the final \<open>currentS\<close>, the flag
  \<open>hit\<close> and the rest of the supply. Every turn draws, so the supply bounds the loop.
  \<open>step_price\<close> is the update \<open>currentS * Math.exp(drift + volShock * Z)\<close>.
\<close>

definition step_price :: "number \<Rightarrow> number \<Rightarrow> number \<Rightarrow> number \<Rightarrow> number" where
  "step_price drift volShock currentS Z = js_mul currentS (Math_exp (js_add drift (js_mul volShock Z)))"

function path_loop ::
  "bool \<Rightarrow> number \<Rightarrow> number \<Rightarrow> number \<Rightarrow> number \<Rightarrow> nat \<Rightarrow> number \<Rightarrow> real list
     \<Rightarrow> (number \<times> bool \<times> real list) option" where
  "path_loop isTouch K drift volShock steps j currentS ds =
     (if js_lt (Fin (real j)) steps then
        (case randn_bm ds of
           None \<Rightarrow> None
         | Some (Z, ds') \<Rightarrow>
             (if isTouch \<and> js_ge (step_price drift volShock currentS Z) K
              then Some (step_price drift volShock currentS Z, True, ds')
              else path_loop isTouch K drift volShock steps (Suc j)
                     (step_price drift volShock currentS Z) ds'))
      else Some (currentS, False, ds))"
  by pat_completeness auto
termination
  by (relation "measure (\<lambda>(isTouch, K, drift, volShock, steps, j, currentS, ds). length ds)")
     (auto dest: randn_bm_length)

declare path_loop.simps [simp del]

text \<open>
  The number of turns of \<open>for (let i = 0; i < n; i++)\<close> when its body has no
  \<open>break\<close>: none for NaN, never ending for \<open>Infinity\<close>.
\<close>

fun loop_trips :: "number \<Rightarrow> nat option" where
  "loop_trips (Fin n) = Some (nat \<lceil>n\<rceil>)"
| "loop_trips PosInf = None"
| "loop_trips NegInf = Some 0"
| "loop_trips NaN = Some 0"

text \<open>
  The outer loop over the iterations, by the number of turns left; \<open>successCount\<close> is
  threaded through.
\<close>

fun iter_loop ::
  "number \<Rightarrow> bool \<Rightarrow> number \<Rightarrow> number \<Rightarrow> number \<Rightarrow> number \<Rightarrow> nat \<Rightarrow> nat \<Rightarrow> real list
     \<Rightarrow> (nat \<times> real list) option" where
  "iter_loop S isTouch K drift volShock steps 0 successCount ds = Some (successCount, ds)"
| "iter_loop S isTouch K drift volShock steps (Suc n) successCount ds =
     (case path_loop isTouch K drift volShock steps 0 S ds of
        None \<Rightarrow> None
      | Some (currentS, hit, ds') \<Rightarrow>
          iter_loop S isTouch K drift volShock steps n
            (if isTouch then (if hit then successCount + 1 else successCount)
             else (if js_gt currentS K then successCount + 1 else successCount))
            ds')"

text \<open>
  The constants \<open>steps\<close>, \<open>drift\<close> and \<open>volShock\<close> of the function body, by name.
\<close>

definition mc_steps :: "bool \<Rightarrow> number \<Rightarrow> number" where
  "mc_steps isTouch T =
     (if isTouch then Math_max (Fin 1) (Math_ceil (js_mul T (Fin 365))) else Fin 1)"

definition mc_drift :: "number \<Rightarrow> number \<Rightarrow> number \<Rightarrow> number" where
  "mc_drift r effectiveSigma stepDt =
     js_mul (js_sub r (js_mul (js_mul (Fin (1 / 2)) effectiveSigma) effectiveSigma)) stepDt"

definition mc_volShock :: "number \<Rightarrow> number \<Rightarrow> number" where
  "mc_volShock effectiveSigma stepDt = js_mul effectiveSigma (Math_sqrt stepDt)"

definition runMonteCarloSimulation ::
  "number \<Rightarrow> number \<Rightarrow> number \<Rightarrow> number \<Rightarrow> number \<Rightarrow> number \<Rightarrow> number \<Rightarrow> bool \<Rightarrow> real list
     \<Rightarrow> (number \<times> real list) option" where
  "runMonteCarloSimulation S K T sigma r iterations volMultiplier isTouch ds =
     (if js_le T (Fin 0) then Some (if js_gt S K then Fin 1 else Fin 0, ds)
      else
        (let effectiveSigma = js_mul sigma volMultiplier;
             steps = mc_steps isTouch T;
             stepDt = js_div T steps;
             drift = mc_drift r effectiveSigma stepDt;
             volShock = mc_volShock effectiveSigma stepDt
         in (case loop_trips iterations of
               None \<Rightarrow> None
             | Some n \<Rightarrow>
                 (case iter_loop S isTouch K drift volShock steps n 0 ds of
                    None \<Rightarrow> None
                  | Some (successCount, ds') \<Rightarrow>
                      Some (js_div (Fin (real successCount)) iterations, ds')))))"

subsection \<open>calculateSpread\<close>

text \<open>
  A field of a fetched object may be missing; reading it then gives \<open>undefined\<close>,
  modelled as \<open>None\<close>. \<open>undefined\<close> is falsy and converts to NaN in arithmetic.
\<close>

definition to_number :: "number option \<Rightarrow> number" where
  "to_number v = (case v of None \<Rightarrow> NaN | Some a \<Rightarrow> a)"

definition truthy_opt :: "number option \<Rightarrow> bool" where
  "truthy_opt v = (case v of None \<Rightarrow> False | Some a \<Rightarrow> truthy a)"

definition calculateSpread :: "number option \<Rightarrow> number option \<Rightarrow> number" where
  "calculateSpread bid ask =
     (if \<not> truthy_opt ask \<or> (case ask of None \<Rightarrow> False | Some a \<Rightarrow> js_eq a (Fin 0)) then Fin 0
      else js_mul (js_div (js_sub (to_number ask) (to_number bid)) (to_number ask)) (Fin 100))"

section \<open>types.ts\<close>

record PolyMarket =
  market_id :: string
  question :: string
  outcomes :: string
  outcomePrices :: string
  bestBid :: "number option"
  bestAsk :: "number option"
  volume :: number
  endDate :: string

record DeribitOption =
  instrument_name :: string
  mark_price :: number
  mark_iv :: number
  bid_price :: "number option"
  ask_price :: "number option"
  open_interest :: number
  underlying_price :: number
  underlying_index :: string
  creation_timestamp :: number

section \<open>components/AnalysisPanel.tsx\<close>

subsection \<open>Edge and liquidity\<close>

text \<open>\<open>const polyYesPrice = market.bestAsk || 0\<close>\<close>

definition polyYesPrice :: "PolyMarket \<Rightarrow> number" where
  "polyYesPrice market = (if truthy_opt (bestAsk market) then to_number (bestAsk market) else Fin 0)"

definition spread :: "PolyMarket \<Rightarrow> number" where
  "spread market = calculateSpread (bestBid market) (bestAsk market)"

definition isLiquidityLow :: "PolyMarket \<Rightarrow> bool" where
  "isLiquidityLow market = js_gt (spread market) (Fin 5)"

text \<open>\<open>resultProb\<close> is a number or \<open>null\<close>; so is \<open>edge\<close>.\<close>

definition edge :: "number option \<Rightarrow> PolyMarket \<Rightarrow> number option" where
  "edge resultProb market =
     (case resultProb of
        None \<Rightarrow> None
      | Some p \<Rightarrow> Some (js_sub (js_mul p (Fin 100)) (js_mul (polyYesPrice market) (Fin 100))))"

definition isGoodOpp :: "number option \<Rightarrow> PolyMarket \<Rightarrow> bool" where
  "isGoodOpp resultProb market =
     (case edge resultProb market of None \<Rightarrow> False | Some e \<Rightarrow> js_gt e (Fin 5))"

subsection \<open>relevantOption\<close>

text \<open>\<open>parseFloat(a.instrument_name.split('-')[2])\<close>\<close>

definition strike_of :: "DeribitOption \<Rightarrow> number" where
  "strike_of a = parseFloat_arg (nth_opt (split_on CHR ''-'' (instrument_name a)) 2)"

text \<open>\<open>Math.abs(strikeA - strikePrice)\<close>, and the comparator of the sort.\<close>

definition strike_distance :: "number \<Rightarrow> DeribitOption \<Rightarrow> number" where
  "strike_distance strikePrice a = Math_abs (js_sub (strike_of a) strikePrice)"

definition compare_distance :: "number \<Rightarrow> DeribitOption \<Rightarrow> DeribitOption \<Rightarrow> number" where
  "compare_distance strikePrice a b =
     js_sub (strike_distance strikePrice a) (strike_distance strikePrice b)"

text \<open>\<open>null\<close>, or \<open>sorted[0]\<close>.\<close>

definition relevantOption :: "number \<Rightarrow> DeribitOption list \<Rightarrow> DeribitOption option" where
  "relevantOption strikePrice matchedOptions =
     (if \<not> truthy strikePrice \<or> length matchedOptions = 0 then None
      else nth_opt (js_sort (compare_distance strikePrice) matchedOptions) 0)"

subsection \<open>The estimation effect\<close>

text \<open>
  The effect of \<open>AnalysisPanel\<close> and the timers it sets, as a state machine. JavaScript
  runs one callback at a time, to completion, so the panel moves by events: a render whose
  dependencies (\<open>spotPrice\<close>, \<open>strikePrice\<close>, \<open>timeToExpiry\<close>, \<open>relevantOption\<close>,
  \<open>modelType\<close>, \<open>volMultiplier\<close>) have changed, after which React runs the cleanup
  function the previous effect run returned, if it returned one, and then the effect; and
  the expiry of a timer, which runs the callback given to \<open>setTimeout\<close>. A closure holds
  the values of its render. \<open>setTimeout\<close> adds a timer to those outstanding and returns
  its id; only \<open>clearTimeout\<close> of that id, or its expiry, removes it.
\<close>

datatype model_type = BS | MC

record closure =
  c_spotPrice :: number
  c_strikePrice :: number
  c_timeToExpiry :: number
  c_relevantOption :: "DeribitOption option"
  c_modelType :: model_type
  c_volMultiplier :: number
  c_question :: string

text \<open>
  The state: the timers outstanding, each with its id and the closure of its callback;
  the id \<open>setTimeout\<close> returns next; the timer that the cleanup function of the last
  effect run clears (none when that run returned no cleanup function); the two state
  variables the effect sets; and the draws \<open>Math.random\<close> will return.
\<close>

record panel_state =
  timers :: "(nat \<times> closure) list"
  next_timer :: nat
  cleanup_timer :: "nat option"
  resultProb :: "number option"
  calculating :: bool
  draws :: "real list"

definition initial_state :: "real list \<Rightarrow> panel_state" where
  "initial_state ds =
     \<lparr>timers = [], next_timer = 0, cleanup_timer = None, resultProb = None, calculating = False,
      draws = ds\<rparr>"

text \<open>\<open>s.includes(sub)\<close>\<close>

fun includes_text :: "string \<Rightarrow> string \<Rightarrow> bool" where
  "includes_text [] sub = (sub = [])"
| "includes_text (c # s) sub = (take (length sub) (c # s) = sub \<or> includes_text s sub)"

text \<open>
  The callback of the timer. It returns the probability it passes to \<open>setResultProb\<close>
  and the rest of the draws; reading \<open>mark_iv\<close> of \<open>null\<close> would throw.
\<close>

definition timer_callback :: "closure \<Rightarrow> real list \<Rightarrow> (number \<times> real list) option" where
  "timer_callback c ds =
     (case c_relevantOption c of
        None \<Rightarrow> None
      | Some opt \<Rightarrow>
          (let sigma = js_div (if truthy (mark_iv opt) then mark_iv opt else Fin 0) (Fin 100)
           in if c_modelType c = BS
              then Some (calculateBlackScholesProb (c_spotPrice c) (c_strikePrice c)
                           (c_timeToExpiry c) sigma default_r, ds)
              else
                (let isTouch = (includes_text (toLowerCase (c_question c)) ''touch'' \<or>
                                includes_text (toLowerCase (c_question c)) ''hit'')
                 in runMonteCarloSimulation (c_spotPrice c) (c_strikePrice c) (c_timeToExpiry c)
                      sigma (Fin (4 / 100)) (Fin 50000) (c_volMultiplier c) isTouch ds)))"

text \<open>\<open>setTimeout(callback, 100)\<close>: the timer is added; its id is \<open>next_timer\<close>.\<close>

definition set_timeout :: "closure \<Rightarrow> panel_state \<Rightarrow> panel_state" where
  "set_timeout c s =
     s\<lparr>timers := timers s @ [(next_timer s, c)], next_timer := Suc (next_timer s)\<rparr>"

text \<open>\<open>clearTimeout(id)\<close>: the timer of that id, if outstanding, is removed.\<close>

definition clear_timeout :: "nat \<Rightarrow> panel_state \<Rightarrow> panel_state" where
  "clear_timeout i s = s\<lparr>timers := filter (\<lambda>(j, c). j \<noteq> i) (timers s)\<rparr>"

text \<open>
  The cleanup of the previous effect run: \<open>() => clearTimeout(timer)\<close> when that run
  set a timer, nothing when it returned early.
\<close>

definition cleanup :: "panel_state \<Rightarrow> panel_state" where
  "cleanup s = (case cleanup_timer s of None \<Rightarrow> s | Some i \<Rightarrow> clear_timeout i s)"

text \<open>The body of the effect, and the cleanup function it returns.\<close>

definition run_effect :: "closure \<Rightarrow> panel_state \<Rightarrow> panel_state" where
  "run_effect c s =
     (if \<not> truthy (c_strikePrice c) \<or> c_relevantOption c = None
      then s\<lparr>resultProb := None, cleanup_timer := None\<rparr>
      else (set_timeout c (s\<lparr>calculating := True\<rparr>))\<lparr>cleanup_timer := Some (next_timer s)\<rparr>)"

datatype event = Render closure | TimerFires nat

text \<open>
  One event. The timer of any id may be the one that expires. If it is outstanding, its
  callback runs and the timer is gone; if it was cleared or has run, nothing happens. A
  callback that does not return has no next state.
\<close>

fun step :: "panel_state \<Rightarrow> event \<Rightarrow> panel_state option" where
  "step s (Render c) = Some (run_effect c (cleanup s))"
| "step s (TimerFires i) =
     (case map_of (timers s) i of
        None \<Rightarrow> Some s
      | Some c \<Rightarrow>
          (case timer_callback c (draws s) of
             None \<Rightarrow> None
           | Some (prob, ds) \<Rightarrow>
               Some ((clear_timeout i s)\<lparr>resultProb := Some prob, calculating := False,
                        draws := ds\<rparr>)))"

fun run_events :: "panel_state \<Rightarrow> event list \<Rightarrow> panel_state option" where
  "run_events s [] = Some s"
| "run_events s (e # es) = (case step s e of None \<Rightarrow> None | Some s' \<Rightarrow> run_events s' es)"

text \<open>The closure of the latest render among the events so far.\<close>

fun latest_render :: "event list \<Rightarrow> closure option" where
  "latest_render [] = None"
| "latest_render (Render c # es) = (case latest_render es of None \<Rightarrow> Some c | Some c' \<Rightarrow> Some c')"
| "latest_render (TimerFires i # es) = latest_render es"

text \<open>At most one timer is outstanding: the one the next cleanup clears, set by the latest render.\<close>

definition one_timer :: "event list \<Rightarrow> panel_state \<Rightarrow> bool" where
  "one_timer evs s =
     (timers s = [] \<or>
      (\<exists>i c. timers s = [(i, c)] \<and> cleanup_timer s = Some i \<and> latest_render evs = Some c))"

section \<open>components/MarketCard.tsx\<close>

subsection \<open>optionsByStrike\<close>

text \<open>
  The object \<open>grouped\<close> that the \<open>forEach\<close> of \<open>optionsByStrike\<close> builds, as a map from
  the strike text to the call and the put of that strike.
\<close>

record strike_group =
  call :: "DeribitOption option"
  put :: "DeribitOption option"

definition group_option ::
  "(string \<rightharpoonup> strike_group) \<Rightarrow> DeribitOption \<Rightarrow> (string \<rightharpoonup> strike_group)" where
  "group_option grouped opt =
     (let parts = split_on CHR ''-'' (instrument_name opt)
      in if length parts < 4 then grouped
         else
           (let strike = parts ! 2;
                type = parts ! 3;
                g0 = (case grouped strike of None \<Rightarrow> \<lparr>call = None, put = None\<rparr> | Some g \<Rightarrow> g);
                g1 = (if type = ''C'' then g0\<lparr>call := Some opt\<rparr> else g0);
                g2 = (if type = ''P'' then g1\<lparr>put := Some opt\<rparr> else g1)
            in grouped(strike \<mapsto> g2)))"

definition grouped_by_strike :: "DeribitOption list \<Rightarrow> (string \<rightharpoonup> strike_group)" where
  "grouped_by_strike matchedOptions = foldl group_option Map.empty matchedOptions"

section \<open>Example data\<close>

text \<open>A quote with a given instrument name and implied volatility, for the examples.\<close>

definition example_quote :: "string \<Rightarrow> real \<Rightarrow> DeribitOption" where
  "example_quote name iv =
     \<lparr>instrument_name = name, mark_price = Fin 0, mark_iv = Fin iv, bid_price = None,
      ask_price = None, open_interest = Fin 0, underlying_price = Fin 0,
      underlying_index = ''BTC'', creation_timestamp = Fin 0\<rparr>"

text \<open>The values of a render with a given spot, at expiry, for the closed form.\<close>

definition example_closure :: "real \<Rightarrow> closure" where
  "example_closure spot =
     \<lparr>c_spotPrice = Fin spot, c_strikePrice = Fin 100, c_timeToExpiry = Fin 0,
      c_relevantOption = Some (example_quote ''BTC-27DEC24-100-C'' 60), c_modelType = BS,
      c_volMultiplier = Fin 1, c_question = ''Bitcoin above $100''\<rparr>"

section \<open>Paths, as the specification describes them\<close>

text \<open>
  The specification speaks of paths, of their steps and of the prices after each step.
  The definitions of this section follow its words; the theorems on the simulation compare
  the loops of \<open>runMonteCarloSimulation\<close> with them.
\<close>

text \<open>The next \<open>k\<close> normal variates of a supply of draws.\<close>

fun draw_variates :: "nat \<Rightarrow> real list \<Rightarrow> (number list \<times> real list) option" where
  "draw_variates 0 ds = Some ([], ds)"
| "draw_variates (Suc k) ds =
     (case randn_bm ds of
        None \<Rightarrow> None
      | Some (z, ds') \<Rightarrow>
          (case draw_variates k ds' of
             None \<Rightarrow> None
           | Some (zs, rest) \<Rightarrow> Some (z # zs, rest)))"

text \<open>The prices after each step of a path that starts at \<open>s\<close> and uses the variates \<open>zs\<close>.\<close>

fun stepped_prices :: "number \<Rightarrow> number \<Rightarrow> number \<Rightarrow> number list \<Rightarrow> number list" where
  "stepped_prices drift volShock s [] = []"
| "stepped_prices drift volShock s (z # zs) =
     step_price drift volShock s z #
     stepped_prices drift volShock (step_price drift volShock s z) zs"




section \<open>Strike extraction, as the specification describes it\<close>

text \<open>
  The specification speaks of numbers in a text, of the first one after a \<open>$\<close> and of
  the first one followed by \<open>k\<close>. The definitions of this section follow its words.
\<close>

text \<open>A number: digits, and possibly a point and digits after them.\<close>

definition number_text :: "string \<Rightarrow> bool" where
  "number_text n =
     (takeWhile is_digit n \<noteq> [] \<and>
      (case dropWhile is_digit n of
         [] \<Rightarrow> True
       | c # fp \<Rightarrow> c = CHR ''.'' \<and> fp \<noteq> [] \<and> list_all is_digit fp))"

text \<open>
  The value of a number, read in base ten; as a double it is \<open>read_double\<close> of that
  value.
\<close>

definition decimal_value :: "string \<Rightarrow> real" where
  "decimal_value n =
     real (digits_val (takeWhile is_digit n)) +
     real (digits_val (drop 1 (dropWhile is_digit n))) /
       10 ^ length (drop 1 (dropWhile is_digit n))"

text \<open>The longest number that a text starts with, among its prefixes of length up to \<open>i\<close>.\<close>

fun longest_upto :: "nat \<Rightarrow> string \<Rightarrow> string option" where
  "longest_upto 0 s = None"
| "longest_upto (Suc i) s =
     (if number_text (take (Suc i) s) then Some (take (Suc i) s) else longest_upto i s)"

definition longest_number :: "string \<Rightarrow> string option" where
  "longest_number s = longest_upto (length s) s"

text \<open>What is found at the first position of a text where something is found.\<close>

fun first_occurrence :: "(string \<Rightarrow> 'a option) \<Rightarrow> string \<Rightarrow> 'a option" where
  "first_occurrence f [] = None"
| "first_occurrence f (c # s) =
     (case f (c # s) of Some x \<Rightarrow> Some x | None \<Rightarrow> first_occurrence f s)"

text \<open>A number right after a \<open>$\<close> at the start of a text.\<close>

definition dollar_number_at :: "string \<Rightarrow> string option" where
  "dollar_number_at s =
     (case s of [] \<Rightarrow> None | c # r \<Rightarrow> if c = CHR ''$'' then longest_number r else None)"

text \<open>
  A number at the start of a text, followed at once by a \<open>k\<close> that ends a word: after
  the \<open>k\<close> the text ends or goes on with a character that is no letter, digit or
  underscore.
\<close>

definition k_number_at :: "string \<Rightarrow> string option" where
  "k_number_at s =
     (case longest_number s of
        None \<Rightarrow> None
      | Some n \<Rightarrow>
          if take 1 (drop (length n) s) = ''k'' \<and>
             list_all (\<lambda>c. \<not> is_word_char c) (take 1 (drop (Suc (length n)) s))
          then Some n else None)"

definition spec_extract :: "string \<Rightarrow> number option" where
  "spec_extract text =
     (if text = [] then None
      else
        (let clean = toLowerCase (filter (\<lambda>c. c \<noteq> CHR '','') text)
         in (case first_occurrence dollar_number_at clean of
               Some n \<Rightarrow> Some (read_double (decimal_value n))
             | None \<Rightarrow>
                 (case first_occurrence k_number_at clean of
                    Some n \<Rightarrow> Some (to_double (js_mul (read_double (decimal_value n)) (Fin 1000)))
                  | None \<Rightarrow> None))))"

section \<open>The boundary at expiry\<close>

text \<open>
  C2. Whatever the spot, the strike, the volatility (and, for the simulation, the rate,
  the iteration count, the multiplier, the mode and the supply of draws), with
  \<open>T = 0\<close> the closed form and the simulation both return exactly 1 when
  \<open>S > K\<close> and exactly 0 otherwise; the simulation draws nothing.
\<close>

theorem expiry_boundary:
  "calculateBlackScholesProb S K (Fin 0) sigma r = (if js_gt S K then Fin 1 else Fin 0) \<and>
   runMonteCarloSimulation S K (Fin 0) sigma r iterations volMultiplier isTouch ds =
     Some (if js_gt S K then Fin 1 else Fin 0, ds)"
  by (simp add: calculateBlackScholesProb_def runMonteCarloSimulation_def)

theorem expiry_boundary_witness:
  "calculateBlackScholesProb (Fin 101) (Fin 100) (Fin 0) (Fin (6 / 10)) default_r = Fin 1 \<and>
   calculateBlackScholesProb (Fin 100) (Fin 100) (Fin 0) (Fin (6 / 10)) default_r = Fin 0 \<and>
   calculateBlackScholesProb NaN (Fin 100) (Fin 0) (Fin (6 / 10)) default_r = Fin 0 \<and>
   runMonteCarloSimulation (Fin 101) (Fin 100) (Fin 0) (Fin (6 / 10)) default_r (Fin 50000) (Fin 1) True []
     = Some (Fin 1, []) \<and>
   runMonteCarloSimulation (Fin 99) (Fin 100) (Fin 0) (Fin (6 / 10)) default_r (Fin 50000) (Fin 1) False []
     = Some (Fin 0, [])"
  using expiry_boundary [of "Fin 101" "Fin 100" "Fin (6 / 10)" default_r "Fin 50000" "Fin 1" True "[]"]
    expiry_boundary [of "Fin 100" "Fin 100" "Fin (6 / 10)" default_r "Fin 50000" "Fin 1" False "[]"]
    expiry_boundary [of NaN "Fin 100" "Fin (6 / 10)" default_r "Fin 50000" "Fin 1" False "[]"]
    expiry_boundary [of "Fin 99" "Fin 100" "Fin (6 / 10)" default_r "Fin 50000" "Fin 1" False "[]"]
  by (simp add: js_gt_def)

section \<open>Edge and liquidity flags\<close>

text \<open>
  C7. With a probability \<open>p\<close> published and a best ask \<open>a\<close>, the edge is
  \<open>p * 100 - a * 100\<close>. The spread percentage of a bid \<open>b\<close> and an ask \<open>a\<close> is
  \<open>(a - b) / a * 100\<close>, and 0 when the ask is 0 or absent. The good-opportunity flag
  holds exactly when the edge exceeds 5, the low-liquidity flag exactly when the spread
  percentage exceeds 5. A best ask of 0.40 against a probability of 0.50 gives the edge 10
  and raises the good-opportunity flag; a bid of 0.40 and an ask of 0.45 give the spread
  100/9 (11.11 percent, rounded) and raise the low-liquidity flag.
\<close>

theorem edge_and_liquidity:
  "(bestAsk m = Some (Fin a) \<longrightarrow>
      edge (Some (Fin p)) m = Some (Fin (p * 100 - a * 100))) \<and>
   (a \<noteq> 0 \<longrightarrow> calculateSpread (Some (Fin b)) (Some (Fin a)) = Fin ((a - b) / a * 100)) \<and>
   calculateSpread bid (Some (Fin 0)) = Fin 0 \<and>
   calculateSpread bid None = Fin 0 \<and>
   (isGoodOpp prob m \<longleftrightarrow> (\<exists>e. edge prob m = Some e \<and> js_gt e (Fin 5))) \<and>
   (isLiquidityLow m \<longleftrightarrow> js_gt (calculateSpread (bestBid m) (bestAsk m)) (Fin 5)) \<and>
   (bestAsk m = Some (Fin a) \<longrightarrow> (isGoodOpp (Some (Fin p)) m \<longleftrightarrow> 5 < p * 100 - a * 100)) \<and>
   \<not> isGoodOpp None m \<and>
   (bestBid m = Some (Fin b) \<and> bestAsk m = Some (Fin a) \<and> a \<noteq> 0 \<longrightarrow>
      (isLiquidityLow m \<longleftrightarrow> 5 < (a - b) / a * 100)) \<and>
   (bestAsk m = Some (Fin (40 / 100)) \<longrightarrow>
      edge (Some (Fin (50 / 100))) m = Some (Fin 10) \<and> isGoodOpp (Some (Fin (50 / 100))) m) \<and>
   (bestBid m = Some (Fin (40 / 100)) \<and> bestAsk m = Some (Fin (45 / 100)) \<longrightarrow>
      spread m = Fin (100 / 9) \<and> 1111 / 100 \<le> (100 / 9 :: real) \<and> (100 / 9 :: real) < 1112 / 100
      \<and> isLiquidityLow m)"
proof -
  have edge_eq: "edge (Some (Fin p')) m = Some (Fin (p' * 100 - a' * 100))"
    if "bestAsk m = Some (Fin a')" for p' a'
    using that
    by (simp add: edge_def polyYesPrice_def truthy_opt_def truthy_def to_number_def js_sub_def)
  have spread_eq: "calculateSpread (Some (Fin b')) (Some (Fin a')) = Fin ((a' - b') / a' * 100)"
    if "a' \<noteq> 0" for a' b'
    using that
    by (simp add: calculateSpread_def truthy_opt_def truthy_def js_eq_def to_number_def js_sub_def)
  have zero: "calculateSpread bid (Some (Fin 0)) = Fin 0"
    by (simp add: calculateSpread_def truthy_opt_def truthy_def)
  have absent: "calculateSpread bid None = Fin 0"
    by (simp add: calculateSpread_def truthy_opt_def)
  have good: "isGoodOpp prob m \<longleftrightarrow> (\<exists>e. edge prob m = Some e \<and> js_gt e (Fin 5))"
    by (simp add: isGoodOpp_def split: option.splits)
  have low: "isLiquidityLow m \<longleftrightarrow> js_gt (calculateSpread (bestBid m) (bestAsk m)) (Fin 5)"
    by (simp add: isLiquidityLow_def spread_def)
  have good_fin: "isGoodOpp (Some (Fin p)) m \<longleftrightarrow> 5 < p * 100 - a * 100"
    if "bestAsk m = Some (Fin a)"
    using edge_eq [OF that, of p] by (simp add: isGoodOpp_def js_gt_def)
  have good_none: "\<not> isGoodOpp None m"
    by (simp add: isGoodOpp_def edge_def)
  have low_fin: "isLiquidityLow m \<longleftrightarrow> 5 < (a - b) / a * 100"
    if "bestBid m = Some (Fin b) \<and> bestAsk m = Some (Fin a) \<and> a \<noteq> 0"
    using that spread_eq [of a b] by (simp add: isLiquidityLow_def spread_def js_gt_def)
  have ex1: "edge (Some (Fin (50 / 100))) m = Some (Fin 10) \<and> isGoodOpp (Some (Fin (50 / 100))) m"
    if "bestAsk m = Some (Fin (40 / 100))"
    using edge_eq [OF that, of "50 / 100"] by (simp add: isGoodOpp_def js_gt_def)
  have ex2: "spread m = Fin (100 / 9) \<and> isLiquidityLow m"
    if "bestBid m = Some (Fin (40 / 100)) \<and> bestAsk m = Some (Fin (45 / 100))"
    using that spread_eq [of "45 / 100" "40 / 100"]
    by (simp add: isLiquidityLow_def spread_def js_gt_def)
  show ?thesis
    using edge_eq spread_eq zero absent good low good_fin good_none low_fin ex1 ex2 by simp
qed

theorem edge_and_liquidity_witness:
  "edge (Some (Fin (50 / 100)))
     \<lparr>market_id = ''m'', question = ''Bitcoin above $95,000'', outcomes = ''[]'',
       outcomePrices = ''[]'', bestBid = Some (Fin (40 / 100)), bestAsk = Some (Fin (45 / 100)),
       volume = Fin 0, endDate = ''2024-12-16''\<rparr> = Some (Fin 5) \<and>
   \<not> isGoodOpp (Some (Fin (50 / 100)))
     \<lparr>market_id = ''m'', question = ''Bitcoin above $95,000'', outcomes = ''[]'',
       outcomePrices = ''[]'', bestBid = Some (Fin (40 / 100)), bestAsk = Some (Fin (45 / 100)),
       volume = Fin 0, endDate = ''2024-12-16''\<rparr> \<and>
   isLiquidityLow
     \<lparr>market_id = ''m'', question = ''Bitcoin above $95,000'', outcomes = ''[]'',
       outcomePrices = ''[]'', bestBid = Some (Fin (40 / 100)), bestAsk = Some (Fin (45 / 100)),
       volume = Fin 0, endDate = ''2024-12-16''\<rparr> \<and>
   calculateSpread (Some (Fin (40 / 100))) (Some (Fin (45 / 100))) = Fin (100 / 9)"
  using edge_and_liquidity [of
      "\<lparr>market_id = ''m'', question = ''Bitcoin above $95,000'', outcomes = ''[]'',
        outcomePrices = ''[]'', bestBid = Some (Fin (40 / 100)), bestAsk = Some (Fin (45 / 100)),
        volume = Fin 0, endDate = ''2024-12-16''\<rparr>"
      "45 / 100" "50 / 100" "40 / 100" "Some (Fin (40 / 100))" "Some (Fin (50 / 100))"]
  by (simp add: js_gt_def)

section \<open>The closed form without volatility\<close>

text \<open>The approximation at the two infinities, and its finiteness at a finite argument.\<close>

lemma normalCDF_PosInf: "normalCDF PosInf = Fin 1"
  by (subst normalCDF.simps)
     (simp add: Math_PI_def inf_of_sign_def js_sub_def eval_nat_numeral)

lemma normalCDF_NegInf: "normalCDF NegInf = Fin 0"
  by (subst normalCDF.simps) (simp add: normalCDF_PosInf js_sub_def)

lemma normalCDF_nonneg_finite: "0 \<le> x \<Longrightarrow> \<exists>y. normalCDF (Fin x) = Fin y"
  by (subst normalCDF.simps)
     (simp add: Math_PI_def js_sub_def eval_nat_numeral Let_def)

lemma normalCDF_finite: "\<exists>y. normalCDF (Fin x) = Fin y"
proof (cases "0 \<le> x")
  case True
  then show ?thesis by (rule normalCDF_nonneg_finite)
next
  case False
  then have "0 \<le> - x" by simp
  then obtain y where "normalCDF (Fin (- x)) = Fin y"
    using normalCDF_nonneg_finite by blast
  with False show ?thesis
    by (subst normalCDF.simps) (simp add: js_sub_def)
qed

text \<open>
  C1, as the code has it. \<open>calculateBlackScholesProb\<close> tests \<open>T\<close> only; no branch
  looks at \<open>sigma\<close>. For \<open>S > 0\<close>, \<open>K > 0\<close>, \<open>T > 0\<close>: with \<open>sigma = 0\<close> the
  quotient \<open>d2\<close> is an infinity of the sign of \<open>ln (S / K) + r * T\<close>, and the result is
  1 when that sum is positive and 0 when it is negative (the spot is compared with the
  discounted strike, not with the strike); with \<open>sigma < 0\<close> the formula is evaluated
  with the negative \<open>sigma\<close> and the result is the finite value of the approximation at the
  finite \<open>d2\<close>.
\<close>

theorem closed_form_nonpositive_sigma:
  assumes "0 < S" and "0 < K" and "0 < T"
  shows
    "(0 < ln (S / K) + r * T \<longrightarrow>
        calculateBlackScholesProb (Fin S) (Fin K) (Fin T) (Fin 0) (Fin r) = Fin 1) \<and>
     (ln (S / K) + r * T < 0 \<longrightarrow>
        calculateBlackScholesProb (Fin S) (Fin K) (Fin T) (Fin 0) (Fin r) = Fin 0) \<and>
     (sigma < 0 \<longrightarrow>
        calculateBlackScholesProb (Fin S) (Fin K) (Fin T) (Fin sigma) (Fin r) =
          normalCDF (Fin ((ln (S / K) + (r - 1 / 2 * sigma * sigma) * T) / (sigma * sqrt T))) \<and>
        (\<exists>y. calculateBlackScholesProb (Fin S) (Fin K) (Fin T) (Fin sigma) (Fin r) = Fin y))"
proof (intro conjI impI)
  assume "0 < ln (S / K) + r * T"
  with assms show "calculateBlackScholesProb (Fin S) (Fin K) (Fin T) (Fin 0) (Fin r) = Fin 1"
    by (simp add: calculateBlackScholesProb_def js_sub_def inf_of_sign_def normalCDF_PosInf)
next
  assume "ln (S / K) + r * T < 0"
  with assms show "calculateBlackScholesProb (Fin S) (Fin K) (Fin T) (Fin 0) (Fin r) = Fin 0"
    by (simp add: calculateBlackScholesProb_def js_sub_def inf_of_sign_def normalCDF_NegInf)
next
  assume neg: "sigma < 0"
  with assms show eq:
    "calculateBlackScholesProb (Fin S) (Fin K) (Fin T) (Fin sigma) (Fin r) =
       normalCDF (Fin ((ln (S / K) + (r - 1 / 2 * sigma * sigma) * T) / (sigma * sqrt T)))"
    by (simp add: calculateBlackScholesProb_def js_sub_def)
  show "\<exists>y. calculateBlackScholesProb (Fin S) (Fin K) (Fin T) (Fin sigma) (Fin r) = Fin y"
    unfolding eq by (rule normalCDF_finite)
qed

theorem closed_form_nonpositive_sigma_witness:
  "calculateBlackScholesProb (Fin 100) (Fin 100) (Fin 1) (Fin 0) (Fin (4 / 100)) = Fin 1 \<and>
   calculateBlackScholesProb (Fin 100) (Fin 200) (Fin 1) (Fin 0) (Fin 0) = Fin 0 \<and>
   calculateBlackScholesProb (Fin 100) (Fin 100) (Fin 1) (Fin (- 1)) (Fin (1 / 2)) = normalCDF (Fin 0)"
  using closed_form_nonpositive_sigma [of 100 100 1 "4 / 100" "- 1"]
    closed_form_nonpositive_sigma [of 100 200 1 0 "- 1"]
    closed_form_nonpositive_sigma [of 100 100 1 "1 / 2" "- 1"]
  by simp

text \<open>
  The claim of C1 as the specification words it fails where the spot equals the strike:
  with \<open>S = K = 100\<close>, \<open>T = 1\<close>, \<open>sigma = 0\<close> and the default rate the boundary rule
  of \<open>T = 0\<close> gives 0 (the spot does not exceed the strike), and the code returns 1.
\<close>

theorem closed_form_zero_sigma_counterexample:
  "calculateBlackScholesProb (Fin 100) (Fin 100) (Fin 1) (Fin 0) default_r = Fin 1 \<and>
   (if js_gt (Fin 100) (Fin 100) then Fin 1 else Fin 0) = Fin 0"
  by (simp add: calculateBlackScholesProb_def default_r_def js_sub_def js_gt_def inf_of_sign_def
      normalCDF_PosInf)

text \<open>
  Where \<open>ln (S / K) + r * T\<close> is zero the quotient is \<open>0 / 0\<close>: at the same input
  with the rate 0 the result is NaN.
\<close>

lemma normalCDF_NaN: "normalCDF NaN = NaN"
  by (subst normalCDF.simps) (simp add: Math_PI_def js_sub_def)

lemma closed_form_zero_over_zero:
  "calculateBlackScholesProb (Fin 100) (Fin 100) (Fin 1) (Fin 0) (Fin 0) = NaN"
  by (simp add: calculateBlackScholesProb_def js_sub_def inf_of_sign_def normalCDF_NaN)

section \<open>The normal variate\<close>

text \<open>What the rejection loop returns: the first draw that is not zero, after zeros only.\<close>

lemma draw_nonzero_None: "draw_nonzero ds = None \<longleftrightarrow> filter (\<lambda>d. d \<noteq> 0) ds = []"
  by (induction ds) auto

lemma draw_nonzero_Some:
  "draw_nonzero ds = Some (u, rest) \<Longrightarrow>
     \<exists>zeros. ds = zeros @ u # rest \<and> (\<forall>z\<in>set zeros. z = 0) \<and> u \<noteq> 0"
proof (induction ds)
  case Nil
  then show ?case by simp
next
  case (Cons d ds)
  show ?case
  proof (cases "d = 0")
    case True
    with Cons obtain zeros where "ds = zeros @ u # rest" "\<forall>z\<in>set zeros. z = 0" "u \<noteq> 0"
      by auto
    with True have "d # ds = (d # zeros) @ u # rest \<and> (\<forall>z\<in>set (d # zeros). z = 0) \<and> u \<noteq> 0"
      by simp
    then show ?thesis by blast
  next
    case False
    with Cons.prems have "d # ds = [] @ u # rest \<and> (\<forall>z\<in>set []. z = (0::real)) \<and> u \<noteq> 0"
      by simp
    then show ?thesis by blast
  qed
qed

lemma randn_bm_split:
  assumes range: "\<forall>d\<in>set ds. 0 \<le> d \<and> d < 1"
  shows
    "(length (filter (\<lambda>d. d \<noteq> 0) ds) < 2 \<longrightarrow> randn_bm ds = None) \<and>
     (2 \<le> length (filter (\<lambda>d. d \<noteq> 0) ds) \<longrightarrow>
        (\<exists>u v pre rest.
           randn_bm ds = Some (Fin (sqrt (- 2 * ln u) * cos (2 * pi * v)), rest) \<and>
           ds = pre @ rest \<and> filter (\<lambda>d. d \<noteq> 0) pre = [u, v] \<and> last pre = v \<and>
           0 < u \<and> u < 1 \<and> 0 < v \<and> v < 1 \<and>
           Math_log (Fin u) = Fin (ln u) \<and> ln u < 0))"
proof (cases "draw_nonzero ds")
  case None
  then have "filter (\<lambda>d. d \<noteq> 0) ds = []"
    by (simp add: draw_nonzero_None)
  with None show ?thesis
    by (simp add: randn_bm_def)
next
  case (Some a)
  obtain u ds1 where a: "a = (u, ds1)" by (cases a)
  from Some a obtain zeros1 where
    ds: "ds = zeros1 @ u # ds1" and z1: "\<forall>z\<in>set zeros1. z = 0" and u: "u \<noteq> 0"
    using draw_nonzero_Some by blast
  from z1 have f1: "filter (\<lambda>d. d \<noteq> 0) zeros1 = []"
    by (induction zeros1) auto
  show ?thesis
  proof (cases "draw_nonzero ds1")
    case None
    then have "filter (\<lambda>d. d \<noteq> 0) ds1 = []"
      by (simp add: draw_nonzero_None)
    with ds f1 u have "length (filter (\<lambda>d. d \<noteq> 0) ds) < 2"
      by simp
    with None Some a show ?thesis
      by (simp add: randn_bm_def)
  next
    case (Some b)
    obtain v ds2 where b: "b = (v, ds2)" by (cases b)
    from Some b obtain zeros2 where
      ds1: "ds1 = zeros2 @ v # ds2" and z2: "\<forall>z\<in>set zeros2. z = 0" and v: "v \<noteq> 0"
      using draw_nonzero_Some by blast
    from z2 have f2: "filter (\<lambda>d. d \<noteq> 0) zeros2 = []"
      by (induction zeros2) auto
    from range ds ds1 u v have bounds: "0 < u" "u < 1" "0 < v" "v < 1"
      by auto
    then have ln: "ln u < 0" by simp
    have run: "randn_bm ds = Some (Fin (sqrt (- 2 * ln u) * cos (2 * pi * v)), ds2)"
      using \<open>draw_nonzero ds = Some a\<close> a Some b bounds ln
      by (simp add: randn_bm_def Math_PI_def mult_nonpos_nonpos)
    have split: "ds = (zeros1 @ u # zeros2 @ [v]) @ ds2"
      using ds ds1 by simp
    have filt: "filter (\<lambda>d. d \<noteq> 0) (zeros1 @ u # zeros2 @ [v]) = [u, v]"
      using f1 f2 u v by simp
    have lst: "last (zeros1 @ u # zeros2 @ [v]) = v"
      by simp
    have "2 \<le> length (filter (\<lambda>d. d \<noteq> 0) ds)"
      using ds ds1 f1 f2 u v by simp
    moreover have "\<exists>u v pre rest.
           randn_bm ds = Some (Fin (sqrt (- 2 * ln u) * cos (2 * pi * v)), rest) \<and>
           ds = pre @ rest \<and> filter (\<lambda>d. d \<noteq> 0) pre = [u, v] \<and> last pre = v \<and>
           0 < u \<and> u < 1 \<and> 0 < v \<and> v < 1 \<and>
           Math_log (Fin u) = Fin (ln u) \<and> ln u < 0"
      using run split filt lst bounds ln by (intro exI [of _ u] exI [of _ v] exI [of _ "zeros1 @ u # zeros2 @ [v]"] exI [of _ ds2]) simp
    ultimately show ?thesis by simp
  qed
qed


text \<open>
  C9. For a supply of draws in \<open>[0, 1)\<close>, \<open>randn_bm\<close> uses the first two draws that
  are not zero, \<open>u\<close> and \<open>v\<close>, whatever zeros come before or between them. The
  logarithm is applied to \<open>u\<close>, which is strictly positive, so it is the finite
  \<open>ln u\<close> (never the \<open>-Infinity\<close> of a zero argument), and the value returned is
  the finite number \<open>sqrt (- 2 * ln u) * cos (2 * pi * v)\<close>. The rest of the supply is
  what follows \<open>v\<close>. A supply with fewer than two non-zero draws is used up inside a
  rejection loop and no value is returned.
\<close>

theorem randn_bm_rejects_zero:
  assumes range: "\<forall>d\<in>set ds. 0 \<le> d \<and> d < 1"
  shows
    "(length (filter (\<lambda>d. d \<noteq> 0) ds) < 2 \<longrightarrow> randn_bm ds = None) \<and>
     (2 \<le> length (filter (\<lambda>d. d \<noteq> 0) ds) \<longrightarrow>
        (\<exists>rest.
           randn_bm ds =
             Some (Fin (sqrt (- 2 * ln (filter (\<lambda>d. d \<noteq> 0) ds ! 0)) *
                        cos (2 * pi * (filter (\<lambda>d. d \<noteq> 0) ds ! 1))), rest) \<and>
           filter (\<lambda>d. d \<noteq> 0) rest = drop 2 (filter (\<lambda>d. d \<noteq> 0) ds)) \<and>
        0 < filter (\<lambda>d. d \<noteq> 0) ds ! 0 \<and> filter (\<lambda>d. d \<noteq> 0) ds ! 0 < 1 \<and>
        Math_log (Fin (filter (\<lambda>d. d \<noteq> 0) ds ! 0)) = Fin (ln (filter (\<lambda>d. d \<noteq> 0) ds ! 0)) \<and>
        ln (filter (\<lambda>d. d \<noteq> 0) ds ! 0) < 0)"
proof (intro conjI impI)
  assume "length (filter (\<lambda>d. d \<noteq> 0) ds) < 2"
  then show "randn_bm ds = None"
    using randn_bm_split [OF range] by simp
next
  assume "2 \<le> length (filter (\<lambda>d. d \<noteq> 0) ds)"
  then obtain u v pre rest where
    run: "randn_bm ds = Some (Fin (sqrt (- 2 * ln u) * cos (2 * pi * v)), rest)" and
    ds: "ds = pre @ rest" and pre: "filter (\<lambda>d. d \<noteq> 0) pre = [u, v]" and
    u: "0 < u" "u < 1" "Math_log (Fin u) = Fin (ln u)" "ln u < 0"
    using randn_bm_split [OF range] by blast
  have nz: "filter (\<lambda>d. d \<noteq> 0) ds = u # v # filter (\<lambda>d. d \<noteq> 0) rest"
    using ds pre by simp
  show "\<exists>rest.
           randn_bm ds =
             Some (Fin (sqrt (- 2 * ln (filter (\<lambda>d. d \<noteq> 0) ds ! 0)) *
                        cos (2 * pi * (filter (\<lambda>d. d \<noteq> 0) ds ! 1))), rest) \<and>
           filter (\<lambda>d. d \<noteq> 0) rest = drop 2 (filter (\<lambda>d. d \<noteq> 0) ds)"
    using run nz by simp
  show "0 < filter (\<lambda>d. d \<noteq> 0) ds ! 0" "filter (\<lambda>d. d \<noteq> 0) ds ! 0 < 1"
    "Math_log (Fin (filter (\<lambda>d. d \<noteq> 0) ds ! 0)) = Fin (ln (filter (\<lambda>d. d \<noteq> 0) ds ! 0))"
    "ln (filter (\<lambda>d. d \<noteq> 0) ds ! 0) < 0"
    using u nz by simp_all
qed

theorem randn_bm_rejects_zero_witness:
  "(\<exists>rest. randn_bm [0, 1 / 2, 0, 0, 1 / 4, 3 / 4] = Some (Fin 0, rest)) \<and>
   randn_bm [0, 1 / 2, 0, 0] = None"
  using randn_bm_rejects_zero [of "[0, 1 / 2, 0, 0, 1 / 4, 3 / 4]"]
    randn_bm_rejects_zero [of "[0, 1 / 2, 0, 0]"]
  by auto

section \<open>The simulation, path by path\<close>

text \<open>Variates drawn one after the other.\<close>

lemma draw_variates_length: "draw_variates k ds = Some (zs, rest) \<Longrightarrow> length zs = k"
  by (induction k arbitrary: ds zs) (auto split: option.splits)



lemma path_loop_sound:
  "path_loop isTouch K drift volShock steps j s ds = Some (cur, hit, rest) \<Longrightarrow>
   \<exists>zs. draw_variates (length zs) ds = Some (zs, rest) \<and>
        cur = last (s # stepped_prices drift volShock s zs) \<and>
        (\<forall>p\<in>set (butlast (stepped_prices drift volShock s zs)). \<not> (isTouch \<and> js_ge p K)) \<and>
        (\<forall>k<length zs. js_lt (Fin (real (j + k))) steps) \<and>
        (if hit then isTouch \<and> zs \<noteq> [] \<and> js_ge (last (stepped_prices drift volShock s zs)) K
         else \<not> js_lt (Fin (real (j + length zs))) steps \<and>
              (\<forall>p\<in>set (stepped_prices drift volShock s zs). \<not> (isTouch \<and> js_ge p K)))"
proof (induction isTouch K drift volShock steps j s ds arbitrary: cur hit rest rule: path_loop.induct)
  case (1 isTouch K drift volShock steps j s ds)
  show ?case
  proof (cases "js_lt (Fin (real j)) steps")
    case False
    with "1.prems" have "cur = s" "hit = False" "rest = ds"
      by (simp_all add: path_loop.simps)
    with False show ?thesis
      by (intro exI [of _ "[]"]) simp
  next
    case turn: True
    with "1.prems" obtain Z ds' where draw: "randn_bm ds = Some (Z, ds')"
      by (subst (asm) path_loop.simps) (auto split: option.splits)
    let ?p = "step_price drift volShock s Z"
    show ?thesis
    proof (cases "isTouch \<and> js_ge ?p K")
      case True
      with "1.prems" turn draw have "cur = ?p" "hit = True" "rest = ds'"
        by (simp_all add: path_loop.simps)
      with True turn draw show ?thesis
        by (intro exI [of _ "[Z]"]) simp
    next
      case False
      with "1.prems" turn draw have
        "path_loop isTouch K drift volShock steps (Suc j) ?p ds' = Some (cur, hit, rest)"
        by (subst (asm) path_loop.simps) simp
      from "1.IH" [OF turn draw refl False this] obtain zs where
        zs: "draw_variates (length zs) ds' = Some (zs, rest)"
          "cur = last (?p # stepped_prices drift volShock ?p zs)"
          "\<forall>p\<in>set (butlast (stepped_prices drift volShock ?p zs)). \<not> (isTouch \<and> js_ge p K)"
          "\<forall>k<length zs. js_lt (Fin (real (Suc j + k))) steps"
          "if hit then isTouch \<and> zs \<noteq> [] \<and> js_ge (last (stepped_prices drift volShock ?p zs)) K
           else \<not> js_lt (Fin (real (Suc j + length zs))) steps \<and>
                (\<forall>p\<in>set (stepped_prices drift volShock ?p zs). \<not> (isTouch \<and> js_ge p K))"
        by blast
      have nonempty: "stepped_prices drift volShock ?p zs = [] \<longleftrightarrow> zs = []"
        by (cases zs) simp_all
      have bound: "\<forall>k<length (Z # zs). js_lt (Fin (real (j + k))) steps"
      proof (intro allI impI)
        fix k assume "k < length (Z # zs)"
        then show "js_lt (Fin (real (j + k))) steps"
          using turn zs(4) by (cases k) auto
      qed
      have "draw_variates (length (Z # zs)) ds = Some (Z # zs, rest)"
        using draw zs(1) by simp
      moreover have "cur = last (s # stepped_prices drift volShock s (Z # zs))"
        using zs(2) by simp
      moreover have "\<forall>p\<in>set (butlast (stepped_prices drift volShock s (Z # zs))). \<not> (isTouch \<and> js_ge p K)"
        using zs(3) False by (auto simp: nonempty)
      moreover have "if hit then isTouch \<and> Z # zs \<noteq> [] \<and> js_ge (last (stepped_prices drift volShock s (Z # zs))) K
         else \<not> js_lt (Fin (real (j + length (Z # zs)))) steps \<and>
              (\<forall>p\<in>set (stepped_prices drift volShock s (Z # zs)). \<not> (isTouch \<and> js_ge p K))"
        using zs(5) False by (auto simp: nonempty)
      ultimately show ?thesis
        using bound by blast
    qed
  qed
qed


lemma length_stepped_prices [simp]: "length (stepped_prices drift volShock s zs) = length zs"
  by (induction zs arbitrary: s) simp_all




























lemma randn_bm_halves: "randn_bm [1 / 2, 1 / 2] = Some (Fin (- sqrt (2 * ln 2)), [])"
  by (simp add: randn_bm_def Math_PI_def ln_div)

text \<open>One step down: a path of one step that misses the barrier.\<close>

lemma step_price_down:
  assumes "d < 0" and "0 \<le> v" and "z \<le> 0" and "0 < s"
  shows "\<exists>p. step_price (Fin d) (Fin v) (Fin s) (Fin z) = Fin p \<and> p < s"
proof -
  from assms have "v * z \<le> 0"
    by (simp add: mult_nonneg_nonpos)
  with assms have "d + v * z < 0"
    by linarith
  then have "exp (d + v * z) < 1"
    by (simp only: exp_less_one_iff)
  with assms have "s * exp (d + v * z) < s * 1"
    by (intro mult_strict_left_mono)
  then show ?thesis
    by (simp add: step_price_def)
qed

lemma path_one_step_miss:
  assumes "randn_bm ds = Some (Z, ds')" and "\<not> js_ge (step_price drift volShock s Z) K"
  shows "path_loop True K drift volShock (Fin 1) 0 s ds =
    Some (step_price drift volShock s Z, False, ds')"
proof -
  have "path_loop True K drift volShock (Fin 1) (Suc 0) s' ds' = Some (s', False, ds')" for s'
    by (subst path_loop.simps) simp
  with assms show ?thesis
    by (subst path_loop.simps) simp
qed

lemma mc_low_path:
  "\<exists>p. path_loop True (Fin 100) (mc_drift default_r (Fin 1) (Fin (1 / 512)))
     (mc_volShock (Fin 1) (Fin (1 / 512))) (Fin 1) 0 (Fin 100) [1 / 2, 1 / 2] =
   Some (Fin p, False, [])"
proof -
  have d: "mc_drift default_r (Fin 1) (Fin (1 / 512)) = Fin (- (46 / 51200))"
    by (simp add: mc_drift_def default_r_def js_sub_def)
  have v: "mc_volShock (Fin 1) (Fin (1 / 512)) = Fin (sqrt (1 / 512))"
    by (simp add: mc_volShock_def)
  have "\<exists>p. step_price (Fin (- (46 / 51200))) (Fin (sqrt (1 / 512))) (Fin 100)
      (Fin (- sqrt (2 * ln 2))) = Fin p \<and> p < 100"
    by (rule step_price_down) simp_all
  then obtain p where
    p: "step_price (Fin (- (46 / 51200))) (Fin (sqrt (1 / 512))) (Fin 100)
      (Fin (- sqrt (2 * ln 2))) = Fin p" and "p < 100"
    by blast
  then have "\<not> js_ge (step_price (Fin (- (46 / 51200))) (Fin (sqrt (1 / 512))) (Fin 100)
      (Fin (- sqrt (2 * ln 2)))) (Fin 100)"
    by (simp add: js_ge_def)
  from path_one_step_miss [OF randn_bm_halves this] p show ?thesis
    unfolding d v by simp
qed

text \<open>
  C10. In the touch mode the flag \<open>hit\<close> of a path is raised by a price computed in a
  step, never by the spot the path starts from: a path that ends with \<open>hit\<close> has taken
  at least one step and its last stepped price reached \<open>K\<close>. So a spot at the barrier
  is no success by itself: with \<open>S = K = 100\<close>, \<open>T = 1/512\<close>, \<open>sigma = 1\<close>, one
  iteration and the draws \<open>1/2, 1/2\<close> the single step lowers the price and the function
  returns 0.
\<close>

theorem touch_barrier_after_step:
  "(\<forall>cur rest.
      path_loop True K drift volShock steps 0 S ds = Some (cur, True, rest) \<longrightarrow>
      (\<exists>zs. zs \<noteq> [] \<and> draw_variates (length zs) ds = Some (zs, rest) \<and>
         cur = last (stepped_prices drift volShock S zs) \<and> js_ge cur K)) \<and>
   js_ge (Fin 100) (Fin 100) \<and>
   runMonteCarloSimulation (Fin 100) (Fin 100) (Fin (1 / 512)) (Fin 1) default_r (Fin 1) (Fin 1)
     True [1 / 2, 1 / 2] = Some (Fin 0, []) \<and>
   js_lt (Fin 0) (Fin 1)"
proof (intro conjI allI impI)
  fix cur rest
  assume "path_loop True K drift volShock steps 0 S ds = Some (cur, True, rest)"
  from path_loop_sound [OF this] obtain zs where
    "draw_variates (length zs) ds = Some (zs, rest)"
    "cur = last (S # stepped_prices drift volShock S zs)"
    "zs \<noteq> []" "js_ge (last (stepped_prices drift volShock S zs)) K"
    by auto
  moreover from \<open>zs \<noteq> []\<close> have "stepped_prices drift volShock S zs \<noteq> []"
    by (cases zs) simp_all
  ultimately show "\<exists>zs. zs \<noteq> [] \<and> draw_variates (length zs) ds = Some (zs, rest) \<and>
         cur = last (stepped_prices drift volShock S zs) \<and> js_ge cur K"
    by auto
next
  show "js_ge (Fin 100) (Fin 100)"
    by (simp add: js_ge_def)
next
  have "mc_steps True (Fin (1 / 512)) = Fin 1"
    by (simp add: mc_steps_def Math_max_def)
  moreover obtain p where
    "path_loop True (Fin 100) (mc_drift default_r (Fin 1) (Fin (1 / 512)))
       (mc_volShock (Fin 1) (Fin (1 / 512))) (Fin 1) 0 (Fin 100) [1 / 2, 1 / 2] =
     Some (Fin p, False, [])"
    using mc_low_path by blast
  ultimately show "runMonteCarloSimulation (Fin 100) (Fin 100) (Fin (1 / 512)) (Fin 1) default_r (Fin 1) (Fin 1)
       True [1 / 2, 1 / 2] = Some (Fin 0, [])"
    by (simp add: runMonteCarloSimulation_def)
next
  show "js_lt (Fin 0) (Fin 1)"
    by simp
qed

lemma mc_high_path:
  "path_loop True (Fin 100) (Fin 1) (Fin 0) (Fin 1) 0 (Fin 100) [1 / 2, 1 / 2] =
   Some (Fin (100 * exp 1), True, [])"
  by (subst path_loop.simps) (simp add: randn_bm_halves step_price_def js_ge_def)

theorem touch_barrier_after_step_witness:
  "\<exists>zs. zs \<noteq> [] \<and> draw_variates (length zs) [1 / 2, 1 / 2] = Some (zs, []) \<and>
     Fin (100 * exp 1) = last (stepped_prices (Fin 1) (Fin 0) (Fin 100) zs) \<and>
     js_ge (Fin (100 * exp 1)) (Fin 100)"
  using touch_barrier_after_step [of "Fin 100" "Fin 1" "Fin 0" "Fin 1" "Fin 100" "[1 / 2, 1 / 2]"]
    mc_high_path
  by blast

section \<open>The volatility selector\<close>

text \<open>The first element of a sorted array, when the comparator is a difference of keys.\<close>

lemma js_sort_Cons: "js_sort cmp (x # xs) = insert_sorted cmp x (js_sort cmp xs)"
  by (simp add: js_sort_def)

lemma js_sort_Nil: "js_sort cmp [] = []"
  by (simp add: js_sort_def)

lemma insert_sorted_not_Nil: "insert_sorted cmp x ys \<noteq> []"
  by (cases ys) simp_all

lemma js_sort_eq_Nil: "js_sort cmp xs = [] \<longleftrightarrow> xs = []"
  by (cases xs) (simp_all add: js_sort_Nil js_sort_Cons insert_sorted_not_Nil)

lemma hd_insert_sorted:
  "hd (insert_sorted cmp x ys) = (if ys \<noteq> [] \<and> js_gt (cmp x (hd ys)) (Fin 0) then hd ys else x)"
  by (cases ys) simp_all

lemma hd_js_sort:
  assumes "xs \<noteq> []" and "\<forall>x\<in>set xs. \<forall>y\<in>set xs. cmp x y = Fin (d x - d y)"
  shows "\<exists>i<length xs. hd (js_sort cmp xs) = xs ! i \<and>
           (\<forall>j<length xs. d (xs ! i) \<le> d (xs ! j)) \<and> (\<forall>j<i. d (xs ! i) < d (xs ! j))"
  using assms
proof (induction xs)
  case Nil
  then show ?case by simp
next
  case (Cons x xs)
  show ?case
  proof (cases "xs = []")
    case True
    then show ?thesis
      by (simp add: js_sort_Cons js_sort_Nil)
  next
    case False
    from Cons.prems have "\<forall>x\<in>set xs. \<forall>y\<in>set xs. cmp x y = Fin (d x - d y)"
      by simp
    from Cons.IH [OF False this] obtain i where
      i: "i < length xs" "hd (js_sort cmp xs) = xs ! i"
        "\<forall>j<length xs. d (xs ! i) \<le> d (xs ! j)" "\<forall>j<i. d (xs ! i) < d (xs ! j)"
      by blast
    from i(1) have mem: "xs ! i \<in> set xs" by simp
    with Cons.prems have cmp: "cmp x (xs ! i) = Fin (d x - d (xs ! i))"
      by simp
    have hd: "hd (js_sort cmp (x # xs)) = (if d (xs ! i) < d x then xs ! i else x)"
      using False i(2) cmp
      by (simp add: js_sort_Cons hd_insert_sorted js_sort_eq_Nil js_gt_def)
    show ?thesis
    proof (cases "d (xs ! i) < d x")
      case True
      have "Suc i < length (x # xs)"
        using i(1) by simp
      moreover have "hd (js_sort cmp (x # xs)) = (x # xs) ! Suc i"
        using hd True by simp
      moreover have "\<forall>j<length (x # xs). d ((x # xs) ! Suc i) \<le> d ((x # xs) ! j)"
      proof (intro allI impI)
        fix j assume "j < length (x # xs)"
        then show "d ((x # xs) ! Suc i) \<le> d ((x # xs) ! j)"
          using True i(3) by (cases j) auto
      qed
      moreover have "\<forall>j<Suc i. d ((x # xs) ! Suc i) < d ((x # xs) ! j)"
      proof (intro allI impI)
        fix j assume "j < Suc i"
        then show "d ((x # xs) ! Suc i) < d ((x # xs) ! j)"
          using True i(4) by (cases j) auto
      qed
      ultimately show ?thesis by blast
    next
      case False
      have "0 < length (x # xs)" by simp
      moreover have "hd (js_sort cmp (x # xs)) = (x # xs) ! 0"
        using hd False by simp
      moreover have "\<forall>j<length (x # xs). d ((x # xs) ! 0) \<le> d ((x # xs) ! j)"
      proof (intro allI impI)
        fix j assume "j < length (x # xs)"
        then show "d ((x # xs) ! 0) \<le> d ((x # xs) ! j)"
          using False i(3) by (cases j) (auto intro: order_trans [of "d x" "d (xs ! i)"])
      qed
      moreover have "\<forall>j<0. d ((x # xs) ! 0) < d ((x # xs) ! j)"
        by simp
      ultimately show ?thesis by blast
    qed
  qed
qed


text \<open>The strike of a quote is read from the third field of its instrument name.\<close>

lemma split_on_field:
  "c \<notin> set a \<Longrightarrow> split_on c (a @ c # rest) = a # split_on c rest"
  by (induction a) auto

lemma strike_of_third_field:
  assumes "CHR ''-'' \<notin> set a" and "CHR ''-'' \<notin> set b" and "CHR ''-'' \<notin> set c"
    and "instrument_name q = a @ ''-'' @ b @ ''-'' @ c @ ''-'' @ rest"
  shows "strike_of q = parseFloat c"
proof -
  have "split_on CHR ''-'' (instrument_name q) = a # b # c # split_on CHR ''-'' rest"
    using assms by (simp add: split_on_field)
  then show ?thesis
    by (simp add: strike_of_def nth_opt_def parseFloat_arg_def)
qed

lemma relevantOption_nearest:
  assumes strikes: "\<forall>q\<in>set qs. \<exists>k. strike_of q = Fin k" and t: "t \<noteq> 0" and ne: "qs \<noteq> []"
  shows "\<exists>i<length qs. relevantOption (Fin t) qs = Some (qs ! i) \<and>
      (\<forall>j<length qs. js_le (strike_distance (Fin t) (qs ! i)) (strike_distance (Fin t) (qs ! j))) \<and>
      (\<forall>j<i. js_lt (strike_distance (Fin t) (qs ! i)) (strike_distance (Fin t) (qs ! j)))"
proof -
  define d where "d = (\<lambda>q. case strike_of q of Fin k \<Rightarrow> \<bar>k - t\<bar> | _ \<Rightarrow> 0)"
  have dist: "strike_distance (Fin t) q = Fin (d q)" if "q \<in> set qs" for q
  proof -
    from that strikes obtain k where "strike_of q = Fin k" by blast
    then show ?thesis
      by (simp add: strike_distance_def d_def js_sub_def)
  qed
  then have "\<forall>x\<in>set qs. \<forall>y\<in>set qs. compare_distance (Fin t) x y = Fin (d x - d y)"
    by (simp add: compare_distance_def js_sub_def)
  from hd_js_sort [OF ne this] obtain i where
    i: "i < length qs" "hd (js_sort (compare_distance (Fin t)) qs) = qs ! i"
      "\<forall>j<length qs. d (qs ! i) \<le> d (qs ! j)" "\<forall>j<i. d (qs ! i) < d (qs ! j)"
    by blast
  have "js_sort (compare_distance (Fin t)) qs \<noteq> []"
    using ne by (simp add: js_sort_eq_Nil)
  then have "nth_opt (js_sort (compare_distance (Fin t)) qs) 0 =
      Some (hd (js_sort (compare_distance (Fin t)) qs))"
    by (simp add: nth_opt_def hd_conv_nth)
  with t ne i(2) have sel: "relevantOption (Fin t) qs = Some (qs ! i)"
    by (simp add: relevantOption_def truthy_def)
  have le: "\<forall>j<length qs. js_le (strike_distance (Fin t) (qs ! i)) (strike_distance (Fin t) (qs ! j))"
    using i(1) i(3) by (simp add: dist)
  have lt: "\<forall>j<i. js_lt (strike_distance (Fin t) (qs ! i)) (strike_distance (Fin t) (qs ! j))"
    using i(1) i(4) by (simp add: dist)
  from i(1) sel le lt show ?thesis by blast
qed

text \<open>
  C4, as the code has it. The guard of \<open>relevantOption\<close> is \<open>!strikePrice\<close>: there is
  no selection for an empty list, and none for a threshold that is 0 or NaN; a negative
  threshold passes the guard. For a list of quotes whose strikes (the third field of the
  instrument name, read by \<open>parseFloat\<close>) are finite and a threshold \<open>t\<close> other than
  0, the selected quote is the first of the list among those at the least absolute
  distance from \<open>t\<close>. With strikes 90000, 100000, 110000 and the threshold 101000 the
  quote at 100000 is selected.
\<close>

theorem nearest_strike_selected:
  assumes strikes: "\<forall>q\<in>set qs. \<exists>k. strike_of q = Fin k" and t: "t \<noteq> 0"
  shows
    "relevantOption strikePrice [] = None \<and>
     relevantOption (Fin 0) qs = None \<and>
     relevantOption NaN qs = None \<and>
     (qs \<noteq> [] \<longrightarrow>
        (\<exists>i<length qs. relevantOption (Fin t) qs = Some (qs ! i) \<and>
           (\<forall>j<length qs.
              js_le (strike_distance (Fin t) (qs ! i)) (strike_distance (Fin t) (qs ! j))) \<and>
           (\<forall>j<i. js_lt (strike_distance (Fin t) (qs ! i)) (strike_distance (Fin t) (qs ! j))))) \<and>
     (CHR ''-'' \<notin> set a \<and> CHR ''-'' \<notin> set b \<and> CHR ''-'' \<notin> set c \<and>
      instrument_name q = a @ ''-'' @ b @ ''-'' @ c @ ''-'' @ rest \<longrightarrow>
        strike_of q = parseFloat c) \<and>
     (strike_of q1 = Fin 90000 \<and> strike_of q2 = Fin 100000 \<and> strike_of q3 = Fin 110000 \<longrightarrow>
        relevantOption (Fin 101000) [q1, q2, q3] = Some q2)"
proof (intro conjI impI)
  show "relevantOption strikePrice [] = None"
    by (simp add: relevantOption_def)
  show "relevantOption (Fin 0) qs = None" "relevantOption NaN qs = None"
    by (simp_all add: relevantOption_def truthy_def)
next
  assume "qs \<noteq> []"
  with strikes t show "\<exists>i<length qs. relevantOption (Fin t) qs = Some (qs ! i) \<and>
           (\<forall>j<length qs.
              js_le (strike_distance (Fin t) (qs ! i)) (strike_distance (Fin t) (qs ! j))) \<and>
           (\<forall>j<i. js_lt (strike_distance (Fin t) (qs ! i)) (strike_distance (Fin t) (qs ! j)))"
    by (rule relevantOption_nearest)
next
  assume "CHR ''-'' \<notin> set a \<and> CHR ''-'' \<notin> set b \<and> CHR ''-'' \<notin> set c \<and>
      instrument_name q = a @ ''-'' @ b @ ''-'' @ c @ ''-'' @ rest"
  then show "strike_of q = parseFloat c"
    using strike_of_third_field by blast
next
  assume "strike_of q1 = Fin 90000 \<and> strike_of q2 = Fin 100000 \<and> strike_of q3 = Fin 110000"
  then show "relevantOption (Fin 101000) [q1, q2, q3] = Some q2"
    by (simp add: relevantOption_def truthy_def js_sort_def compare_distance_def strike_distance_def
        js_sub_def js_gt_def nth_opt_def)
qed

lemma strike_of_examples:
  "strike_of (example_quote ''BTC-27DEC24-90000-C'' iv) = Fin 90000"
  "strike_of (example_quote ''BTC-27DEC24-100000-C'' iv) = Fin 100000"
  "strike_of (example_quote ''BTC-27DEC24-110000-C'' iv) = Fin 110000"
  "strike_of (example_quote ''BTC-27DEC24-100000-P'' iv) = Fin 100000"
  "strike_of (example_quote ''BTC-27DEC24'' iv) = NaN"
  by (simp_all add: strike_of_def example_quote_def nth_opt_def parseFloat_arg_def parseFloat_def
      parse_unsigned_def read_double_def is_space_def is_digit_def digits_val_def digit_val_def
      parse_exponent_def pow10_def)

theorem nearest_strike_selected_witness:
  "relevantOption (Fin 101000)
     [example_quote ''BTC-27DEC24-90000-C'' 50, example_quote ''BTC-27DEC24-100000-C'' 55,
      example_quote ''BTC-27DEC24-110000-C'' 60] = Some (example_quote ''BTC-27DEC24-100000-C'' 55) \<and>
   relevantOption (Fin 0)
     [example_quote ''BTC-27DEC24-90000-C'' 50, example_quote ''BTC-27DEC24-100000-C'' 55,
      example_quote ''BTC-27DEC24-110000-C'' 60] = None"
  using nearest_strike_selected [of
      "[example_quote ''BTC-27DEC24-90000-C'' 50, example_quote ''BTC-27DEC24-100000-C'' 55,
        example_quote ''BTC-27DEC24-110000-C'' 60]" 101000 "Fin 101000" "''BTC''" "''27DEC24''"
      "''90000''" "example_quote ''BTC-27DEC24-90000-C'' 50" "''C''"
      "example_quote ''BTC-27DEC24-90000-C'' 50" "example_quote ''BTC-27DEC24-100000-C'' 55"
      "example_quote ''BTC-27DEC24-110000-C'' 60"]
  by (simp add: strike_of_examples)

text \<open>
  The claim of C4 as the specification words it fails at a negative threshold: \<open>-5\<close>
  is not positive, and a quote is selected.
\<close>

theorem negative_threshold_counterexample:
  "relevantOption (Fin (- 5)) [example_quote ''BTC-27DEC24-100000-C'' 55] =
     Some (example_quote ''BTC-27DEC24-100000-C'' 55) \<and>
   js_le (Fin (- 5)) (Fin 0)"
  by (simp add: relevantOption_def truthy_def js_sort_def nth_opt_def)

section \<open>Quotes with a malformed instrument name\<close>

text \<open>
  \<open>optionsByStrike\<close> skips a quote whose instrument name has fewer than four parts:
  such a quote leaves the grouping as it was.
\<close>

lemma group_option_skips:
  "length (split_on CHR ''-'' (instrument_name opt)) < 4 \<Longrightarrow> group_option grouped opt = grouped"
  by (simp add: group_option_def)

lemma foldl_group_option_filter:
  "foldl group_option grouped
     (filter (\<lambda>opt. 4 \<le> length (split_on CHR ''-'' (instrument_name opt))) qs) =
   foldl group_option grouped qs"
  by (induction qs arbitrary: grouped) (simp_all add: group_option_skips)

lemma grouped_by_strike_skips:
  "grouped_by_strike (filter (\<lambda>opt. 4 \<le> length (split_on CHR ''-'' (instrument_name opt))) qs) =
   grouped_by_strike qs"
  by (simp add: grouped_by_strike_def foldl_group_option_filter)

text \<open>
  C8, on the selection. \<open>relevantOption\<close> has no such test. The instrument name
  \<open>BTC-27DEC24\<close> has two parts; its third field is \<open>undefined\<close>, its strike NaN, and
  every comparison with it counts as a tie, so the stable sort leaves it where it was. Put
  before the well-formed quote at the strike 100000, it is the quote selected for the
  threshold 100000; without it the well-formed quote is.
\<close>

theorem malformed_quote_selected:
  "relevantOption (Fin 100000)
     [example_quote ''BTC-27DEC24'' 80, example_quote ''BTC-27DEC24-100000-C'' 55] =
     Some (example_quote ''BTC-27DEC24'' 80) \<and>
   relevantOption (Fin 100000) [example_quote ''BTC-27DEC24-100000-C'' 55] =
     Some (example_quote ''BTC-27DEC24-100000-C'' 55) \<and>
   length (split_on CHR ''-'' (instrument_name (example_quote ''BTC-27DEC24'' 80))) = 2"
  by (simp add: relevantOption_def truthy_def js_sort_def nth_opt_def compare_distance_def
      strike_distance_def strike_of_examples js_sub_def js_gt_def)
     (simp add: example_quote_def)

theorem malformed_quote_selected_witness:
  "relevantOption (Fin 100000)
     [example_quote ''BTC-27DEC24'' 80, example_quote ''BTC-27DEC24-100000-C'' 55] \<noteq>
   relevantOption (Fin 100000) [example_quote ''BTC-27DEC24-100000-C'' 55]"
  using malformed_quote_selected by (simp add: example_quote_def)

section \<open>The strike extractor\<close>

text \<open>The greedy match is the longest number the text starts with.\<close>

lemma take_number_None: "take_number s = None \<longleftrightarrow> takeWhile is_digit s = []"
  by (simp add: take_number_def Let_def split: list.splits)

lemma number_text_digits:
  assumes "ip \<noteq> []" and "\<forall>c\<in>set ip. is_digit c"
  shows "number_text ip"
proof -
  have tw: "takeWhile is_digit ip = ip" and dw: "dropWhile is_digit ip = []"
    using assms by simp_all
  show ?thesis
    unfolding number_text_def tw dw using assms by simp
qed

lemma not_digit_point: "\<not> is_digit CHR ''.''"
  by (simp add: is_digit_def)

lemma number_text_fraction:
  assumes "ip \<noteq> []" and "\<forall>c\<in>set ip. is_digit c" and "fp \<noteq> []" and "\<forall>c\<in>set fp. is_digit c"
  shows "number_text (ip @ CHR ''.'' # fp)"
proof -
  have tw: "takeWhile is_digit (ip @ CHR ''.'' # fp) = ip"
    and dw: "dropWhile is_digit (ip @ CHR ''.'' # fp) = CHR ''.'' # fp"
    using assms by (simp_all add: not_digit_point)
  show ?thesis
    unfolding number_text_def tw dw using assms by (simp add: list_all_iff)
qed

lemma take_number_Some:
  assumes "take_number s = Some (n, r)"
  shows "s = n @ r \<and> number_text n"
proof -
  let ?ip = "takeWhile is_digit s"
  let ?r = "dropWhile is_digit s"
  from assms have ip: "?ip \<noteq> []"
    by (auto simp: take_number_def Let_def split: if_splits)
  have digs: "\<forall>c\<in>set ?ip. is_digit c"
    by (auto dest: set_takeWhileD)
  have s: "s = ?ip @ ?r" by simp
  show ?thesis
  proof (cases "\<exists>r'. ?r = CHR ''.'' # r' \<and> takeWhile is_digit r' \<noteq> []")
    case True
    then obtain r' where r: "?r = CHR ''.'' # r'" and fp: "takeWhile is_digit r' \<noteq> []"
      by blast
    with assms ip have n: "n = ?ip @ CHR ''.'' # takeWhile is_digit r'" and rest: "r = dropWhile is_digit r'"
      by (simp_all add: take_number_def Let_def)
    have "\<forall>c\<in>set (takeWhile is_digit r'). is_digit c"
      by (auto dest: set_takeWhileD)
    with ip digs fp have "number_text n"
      unfolding n by (intro number_text_fraction)
    moreover have "s = n @ r"
      using s r by (simp add: n rest)
    ultimately show ?thesis by simp
  next
    case False
    with assms ip have n: "n = ?ip" and rest: "r = ?r"
      by (auto simp: take_number_def Let_def split: list.splits if_splits)
    with ip digs show ?thesis
      by (simp add: number_text_digits)
  qed
qed


lemma number_text_cases:
  assumes "number_text p"
  shows "(p \<noteq> [] \<and> (\<forall>c\<in>set p. is_digit c)) \<or>
         (\<exists>ip fp. p = ip @ CHR ''.'' # fp \<and> ip \<noteq> [] \<and> (\<forall>c\<in>set ip. is_digit c) \<and>
            fp \<noteq> [] \<and> (\<forall>c\<in>set fp. is_digit c))"
proof (cases "dropWhile is_digit p")
  case Nil
  then have "\<forall>c\<in>set p. is_digit c"
    by (simp add: dropWhile_eq_Nil_conv)
  moreover from assms have "p \<noteq> []"
    by (auto simp: number_text_def)
  ultimately show ?thesis by simp
next
  case (Cons c fp)
  with assms have c: "c = CHR ''.''" and fp: "fp \<noteq> []" "\<forall>c\<in>set fp. is_digit c"
    and ip: "takeWhile is_digit p \<noteq> []"
    by (simp_all add: number_text_def list_all_iff)
  have "p = takeWhile is_digit p @ dropWhile is_digit p" by simp
  with Cons c have "p = takeWhile is_digit p @ CHR ''.'' # fp" by simp
  moreover have "\<forall>c\<in>set (takeWhile is_digit p). is_digit c"
    by (auto dest: set_takeWhileD)
  ultimately show ?thesis
    using ip fp by blast
qed

lemma take_number_prefix:
  assumes "number_text p" and "take_number (p @ rest) = Some (n, r)"
  shows "length p \<le> length n"
proof -
  from take_number_Some [OF assms(2)] have split: "p @ rest = n @ r" and n: "number_text n"
    by simp_all
  from number_text_cases [OF assms(1)] show ?thesis
  proof
    assume digits: "p \<noteq> [] \<and> (\<forall>c\<in>set p. is_digit c)"
    then have "takeWhile is_digit (p @ rest) = p @ takeWhile is_digit rest"
      by simp
    then have "length p \<le> length (takeWhile is_digit (p @ rest))"
      by simp
    moreover have "length (takeWhile is_digit (p @ rest)) \<le> length n"
      using assms(2) by (auto simp: take_number_def Let_def split: if_splits list.splits)
    ultimately show ?thesis by simp
  next
    assume "\<exists>ip fp. p = ip @ CHR ''.'' # fp \<and> ip \<noteq> [] \<and> (\<forall>c\<in>set ip. is_digit c) \<and>
            fp \<noteq> [] \<and> (\<forall>c\<in>set fp. is_digit c)"
    then obtain ip fp where p: "p = ip @ CHR ''.'' # fp" and ip: "ip \<noteq> []" "\<forall>c\<in>set ip. is_digit c"
      and fp: "fp \<noteq> []" "\<forall>c\<in>set fp. is_digit c"
      by blast
    have tw: "takeWhile is_digit (p @ rest) = ip"
      and dw: "dropWhile is_digit (p @ rest) = CHR ''.'' # fp @ rest"
      using ip by (simp_all add: p not_digit_point)
    have tw2: "takeWhile is_digit (fp @ rest) = fp @ takeWhile is_digit rest"
      using fp by simp
    from assms(2) have "n = ip @ CHR ''.'' # fp @ takeWhile is_digit rest"
      using ip fp by (simp add: take_number_def Let_def tw dw tw2)
    then show ?thesis
      by (simp add: p)
  qed
qed

lemma take_number_number_text:
  assumes "number_text p"
  shows "take_number (p @ rest) \<noteq> None"
proof -
  from assms obtain c p' where "p = c # p'" "is_digit c"
    by (cases p) (auto simp: number_text_def split: if_splits)
  then show ?thesis
    by (simp add: take_number_None)
qed

lemma longest_upto_None:
  assumes "take_number s = None"
  shows "longest_upto i s = None"
proof (induction i)
  case 0
  show ?case by simp
next
  case (Suc i)
  have "\<not> number_text (take (Suc i) s)"
  proof
    assume "number_text (take (Suc i) s)"
    from take_number_number_text [OF this, of "drop (Suc i) s"] assms show False
      by simp
  qed
  with Suc show ?case by simp
qed

lemma longest_upto_Some:
  assumes "take_number s = Some (n, r)"
  shows "length n \<le> i \<Longrightarrow> i \<le> length s \<Longrightarrow> longest_upto i s = Some n"
proof (induction i)
  case 0
  with take_number_Some [OF assms] show ?case
    by (simp add: number_text_def)
next
  case (Suc i)
  from take_number_Some [OF assms] have s: "s = n @ r" and n: "number_text n"
    by simp_all
  show ?case
  proof (cases "length n = Suc i")
    case True
    with s have "take (Suc i) s = n" by simp
    with n show ?thesis by simp
  next
    case False
    with Suc.prems have le: "length n \<le> i" by simp
    have "\<not> number_text (take (Suc i) s)"
    proof
      assume "number_text (take (Suc i) s)"
      from take_number_prefix [OF this, of "drop (Suc i) s" n r] assms Suc.prems le
      show False by simp
    qed
    with Suc le show ?thesis by simp
  qed
qed

lemma take_number_longest:
  "take_number s =
     (case longest_number s of None \<Rightarrow> None | Some n \<Rightarrow> Some (n, drop (length n) s))"
proof (cases "take_number s")
  case None
  then show ?thesis
    by (simp add: longest_number_def longest_upto_None)
next
  case (Some a)
  obtain n r where a: "a = (n, r)" by (cases a)
  from take_number_Some [of s n r] Some a have s: "s = n @ r"
    by simp
  then have "length n \<le> length s" by simp
  with Some a have "longest_number s = Some n"
    by (simp add: longest_number_def longest_upto_Some)
  with Some a s show ?thesis
    by simp
qed

lemma dollar_match_first: "dollar_match s = first_occurrence dollar_number_at s"
  by (induction s) (auto simp: dollar_number_at_def take_number_longest split: option.splits)

lemma k_match_at_number: "k_match_at s = k_number_at s"
proof (cases "longest_number s")
  case None
  then show ?thesis
    by (simp add: k_match_at_def k_number_at_def take_number_longest)
next
  case (Some n)
  show ?thesis
  proof (cases "drop (length n) s")
    case Nil
    with Some show ?thesis
      by (simp add: k_match_at_def k_number_at_def take_number_longest)
  next
    case (Cons c r')
    then have "drop (Suc (length n)) s = r'"
      by (metis drop_Suc tl_drop list.sel(3))
    with Some Cons show ?thesis
      by (cases r') (simp_all add: k_match_at_def k_number_at_def take_number_longest)
  qed
qed

lemma k_match_first: "k_match s = first_occurrence k_number_at s"
  by (induction s) (simp_all add: k_match_at_number split: option.splits)


text \<open>The value \<open>parseFloat\<close> reads from a number is its value in base ten.\<close>

lemma digits_val_Nil [simp]: "digits_val [] = 0"
  by (simp add: digits_val_def)

lemma digit_not_special:
  assumes "is_digit c"
  shows "\<not> is_space c" and "c \<noteq> CHR ''-''" and "c \<noteq> CHR ''+''" and "c \<noteq> CHR ''I''"
  using assms by (auto simp: is_digit_def is_space_def)

lemma parse_unsigned_digits:
  assumes "ip \<noteq> []" and "\<forall>c\<in>set ip. is_digit c"
  shows "parse_unsigned ip = read_double (real (digits_val ip))"
proof -
  have tw: "takeWhile is_digit ip = ip" and dw: "dropWhile is_digit ip = []"
    using assms by simp_all
  from assms obtain c ip' where ip: "ip = c # ip'" and c: "is_digit c"
    by (cases ip) auto
  then have "take 8 ip \<noteq> ''Infinity''"
    using digit_not_special(4) [OF c] by auto
  then show ?thesis
    using assms(1) by (simp add: parse_unsigned_def Let_def tw dw parse_exponent_def pow10_def)
qed

lemma parse_unsigned_fraction:
  assumes "ip \<noteq> []" and "\<forall>c\<in>set ip. is_digit c" and "fp \<noteq> []" and "\<forall>c\<in>set fp. is_digit c"
  shows "parse_unsigned (ip @ CHR ''.'' # fp) =
    read_double (real (digits_val ip) + real (digits_val fp) / 10 ^ length fp)"
proof -
  have tw: "takeWhile is_digit (ip @ CHR ''.'' # fp) = ip"
    and dw: "dropWhile is_digit (ip @ CHR ''.'' # fp) = CHR ''.'' # fp"
    using assms by (simp_all add: not_digit_point)
  have tw2: "takeWhile is_digit fp = fp" and dw2: "dropWhile is_digit fp = []"
    using assms by simp_all
  from assms obtain c ip' where ip: "ip = c # ip'" and c: "is_digit c"
    by (cases ip) auto
  then have "take 8 (ip @ CHR ''.'' # fp) \<noteq> ''Infinity''"
    using digit_not_special(4) [OF c] by auto
  then show ?thesis
    using assms(1) by (simp add: parse_unsigned_def Let_def tw dw tw2 dw2 parse_exponent_def pow10_def)
qed

lemma parseFloat_number_text:
  assumes "number_text n"
  shows "parseFloat n = read_double (decimal_value n)"
proof -
  from assms obtain c n' where n: "n = c # n'" and c: "is_digit c"
    by (cases n) (auto simp: number_text_def split: if_splits)
  have pf: "parseFloat n = parse_unsigned n"
    using digit_not_special [OF c] by (simp add: parseFloat_def n)
  from number_text_cases [OF assms] show ?thesis
  proof
    assume digits: "n \<noteq> [] \<and> (\<forall>c\<in>set n. is_digit c)"
    then have tw: "takeWhile is_digit n = n" and dw: "dropWhile is_digit n = []"
      by simp_all
    from digits show ?thesis
      by (simp add: pf parse_unsigned_digits decimal_value_def tw dw)
  next
    assume "\<exists>ip fp. n = ip @ CHR ''.'' # fp \<and> ip \<noteq> [] \<and> (\<forall>c\<in>set ip. is_digit c) \<and>
            fp \<noteq> [] \<and> (\<forall>c\<in>set fp. is_digit c)"
    then obtain ip fp where p: "n = ip @ CHR ''.'' # fp" and ip: "ip \<noteq> []" "\<forall>c\<in>set ip. is_digit c"
      and fp: "fp \<noteq> []" "\<forall>c\<in>set fp. is_digit c"
      by blast
    have tw: "takeWhile is_digit n = ip" and dw: "dropWhile is_digit n = CHR ''.'' # fp"
      using ip by (simp_all add: p not_digit_point)
    show ?thesis
      unfolding pf decimal_value_def tw dw
      using parse_unsigned_fraction [OF ip fp] by (simp add: p)
  qed
qed

lemma decimal_value_nonneg: "0 \<le> decimal_value n"
  by (simp add: decimal_value_def)

lemma longest_upto_number_text: "longest_upto i s = Some n \<Longrightarrow> number_text n"
  by (induction i) (auto split: if_splits)

lemma first_occurrence_dollar_number:
  "first_occurrence dollar_number_at s = Some n \<Longrightarrow> number_text n"
  by (induction s)
     (auto simp: dollar_number_at_def longest_number_def split: option.splits if_splits
       dest: longest_upto_number_text)

lemma first_occurrence_k_number:
  "first_occurrence k_number_at s = Some n \<Longrightarrow> number_text n"
  by (induction s)
     (auto simp: k_number_at_def longest_number_def split: option.splits if_splits
       dest: longest_upto_number_text)

lemma extract_refines: "extractStrikePrice text = spec_extract text"
  by (auto simp: extractStrikePrice_def spec_extract_def Let_def dollar_match_first k_match_first
      parseFloat_number_text first_occurrence_dollar_number first_occurrence_k_number
      split: option.splits)

lemma read_double_nonneg: "0 \<le> x \<Longrightarrow> js_ge (read_double x) (Fin 0)"
  by (simp add: read_double_def js_ge_def)

lemma read_double_times_nonneg:
  "0 \<le> x \<Longrightarrow> js_ge (to_double (js_mul (read_double x) (Fin 1000))) (Fin 0)"
  by (simp add: read_double_def to_double_def js_ge_def inf_of_sign_def)

lemma spec_extract_nonneg: "spec_extract text = Some v \<Longrightarrow> js_ge v (Fin 0)"
  by (auto simp: spec_extract_def Let_def decimal_value_nonneg read_double_nonneg
      read_double_times_nonneg split: option.splits if_splits)


text \<open>A digit string beyond the range of doubles: 1 and 309 zeros after a \<open>$\<close>.\<close>

lemma digits_val_snoc: "digits_val (xs @ [c]) = 10 * digits_val xs + digit_val c"
  by (simp add: digits_val_def)

lemma digits_val_zeros: "digits_val (xs @ replicate n (CHR ''0'')) = digits_val xs * 10 ^ n"
proof (induction n)
  case 0
  show ?case by simp
next
  case (Suc n)
  have "xs @ replicate (Suc n) (CHR ''0'') = (xs @ replicate n (CHR ''0'')) @ [CHR ''0'']"
    by (simp add: replicate_append_same)
  then show ?case
    using Suc by (simp only: digits_val_snoc) (simp add: digit_val_def)
qed

lemma take_number_digits:
  assumes "s \<noteq> []" and "\<forall>c\<in>set s. is_digit c"
  shows "take_number s = Some (s, [])"
proof -
  have tw: "takeWhile is_digit s = s" and dw: "dropWhile is_digit s = []"
    using assms by simp_all
  show ?thesis
    unfolding take_number_def tw dw using assms(1) by simp
qed

lemma one_and_zeros:
  "CHR ''1'' # replicate n (CHR ''0'') \<noteq> []"
  "\<forall>c\<in>set (CHR ''1'' # replicate n (CHR ''0'')). is_digit c"
  by (auto simp: is_digit_def)

lemma parseFloat_overflow: "parseFloat (CHR ''1'' # replicate 309 (CHR ''0'')) = PosInf"
proof -
  have "digits_val ([CHR ''1''] @ replicate 309 (CHR ''0'')) = 10 ^ 309"
    by (simp only: digits_val_zeros) (simp add: digits_val_def digit_val_def)
  then have "parse_unsigned (CHR ''1'' # replicate 309 (CHR ''0'')) = read_double (10 ^ 309)"
    using parse_unsigned_digits [OF one_and_zeros, of 309] by simp
  moreover have "read_double (10 ^ 309) = PosInf"
    by (simp add: read_double_def)
  ultimately show ?thesis
    by (simp add: parseFloat_def is_space_def)
qed

lemma extract_overflow:
  "extractStrikePrice (CHR ''$'' # CHR ''1'' # replicate 309 (CHR ''0'')) = Some PosInf"
proof -
  have clean: "toLowerCase (filter (\<lambda>c. c \<noteq> CHR '','')
      (CHR ''$'' # CHR ''1'' # replicate 309 (CHR ''0''))) =
      CHR ''$'' # CHR ''1'' # replicate 309 (CHR ''0'')"
    by (simp add: toLowerCase_def lower_char_def)
  have "dollar_match (CHR ''$'' # CHR ''1'' # replicate 309 (CHR ''0'')) =
      Some (CHR ''1'' # replicate 309 (CHR ''0''))"
    using take_number_digits [OF one_and_zeros, of 309] by simp
  then show ?thesis
    unfolding extractStrikePrice_def clean Let_def by (simp add: parseFloat_overflow)
qed

text \<open>A product beyond the range of doubles: 1 and 306 zeros before a \<open>k\<close>.\<close>

lemma take_number_digits_then:
  assumes "s \<noteq> []" and "\<forall>c\<in>set s. is_digit c" and "\<not> is_digit c" and "c \<noteq> CHR ''.''"
  shows "take_number (s @ c # r) = Some (s, c # r)"
proof -
  have tw: "takeWhile is_digit (s @ c # r) = s" and dw: "dropWhile is_digit (s @ c # r) = c # r"
    using assms by (simp_all add: takeWhile_append2 dropWhile_append2)
  show ?thesis
    unfolding take_number_def tw dw using assms by simp
qed

lemma dollar_match_no_dollar: "CHR ''$'' \<notin> set s \<Longrightarrow> dollar_match s = None"
  by (induction s) auto

lemma parseFloat_large: "parseFloat (CHR ''1'' # replicate 306 (CHR ''0'')) = Fin (10 ^ 306)"
proof -
  have "digits_val ([CHR ''1''] @ replicate 306 (CHR ''0'')) = 10 ^ 306"
    by (simp only: digits_val_zeros) (simp add: digits_val_def digit_val_def)
  then have "parse_unsigned (CHR ''1'' # replicate 306 (CHR ''0'')) = read_double (10 ^ 306)"
    using parse_unsigned_digits [OF one_and_zeros, of 306] by simp
  moreover have "read_double (10 ^ 306) = Fin (10 ^ 306)"
    by (simp add: read_double_def)
  ultimately show ?thesis
    by (simp add: parseFloat_def is_space_def)
qed

lemma extract_product_overflow:
  "extractStrikePrice (CHR ''1'' # replicate 306 (CHR ''0'') @ ''k'') = Some PosInf"
proof -
  have clean: "toLowerCase (filter (\<lambda>c. c \<noteq> CHR '','')
      (CHR ''1'' # replicate 306 (CHR ''0'') @ ''k'')) =
      (CHR ''1'' # replicate 306 (CHR ''0'')) @ ''k''"
    by (simp add: toLowerCase_def lower_char_def)
  have tn: "take_number ((CHR ''1'' # replicate 306 (CHR ''0'')) @ ''k'') =
      Some (CHR ''1'' # replicate 306 (CHR ''0''), ''k'')"
    by (rule take_number_digits_then [OF one_and_zeros]) (simp_all add: is_digit_def)
  have d: "dollar_match ((CHR ''1'' # replicate 306 (CHR ''0'')) @ ''k'') = None"
    by (rule dollar_match_no_dollar) auto
  have k: "k_match ((CHR ''1'' # replicate 306 (CHR ''0'')) @ ''k'') =
      Some (CHR ''1'' # replicate 306 (CHR ''0''))"
    using tn by (simp add: k_match_at_def)
  have p: "to_double (js_mul (Fin (10 ^ 306)) (Fin 1000)) = PosInf"
    by (simp add: to_double_def read_double_def)
  show ?thesis
    unfolding extractStrikePrice_def clean Let_def
    by (simp only: d k option.case parseFloat_large p) simp
qed

text \<open>The definitions that evaluate the extractor on a given text.\<close>

lemmas extract_eval =
  extractStrikePrice_def toLowerCase_def lower_char_def take_number_def k_match_at_def
  parseFloat_def parse_unsigned_def read_double_def to_double_def parse_exponent_def pow10_def
  is_space_def
  is_digit_def
  is_word_char_def is_upper_def is_lower_def digits_val_def digit_val_def Let_def

lemma extract_examples:
  "extractStrikePrice ''Bitcoin above $95,000'' = Some (Fin 95000)"
  "extractStrikePrice ''BTC 100k by March'' = Some (Fin 100000)"
  "extractStrikePrice ''no numbers here'' = None"
  by (simp_all add: extract_eval)


text \<open>
  C5, as the code has it. The extractor strips the commas and lower-cases the text. It
  returns the number after the first \<open>$\<close> that has a number right after it, as it
  stands; else 1000 times the first number followed at once by a \<open>k\<close> that ends a word
  (after the \<open>k\<close> the text ends, or goes on with a character that is no letter, digit or
  underscore); else nothing. The number is the longest one that starts at its position.
  Every value returned is a number that is not negative: it may be 0 (\<open>$0\<close>) and it may
  be \<open>Infinity\<close> (a \<open>$\<close> before 1 and 309 zeros, or 1 and 306 zeros before a
  \<open>k\<close>). The three examples of the specification give 95000, 100000 and nothing.
\<close>

theorem strike_extraction:
  "extractStrikePrice text = spec_extract text \<and>
   (\<forall>v. extractStrikePrice text = Some v \<longrightarrow> js_ge v (Fin 0)) \<and>
   extractStrikePrice (CHR ''$'' # CHR ''1'' # replicate 309 (CHR ''0'')) = Some PosInf \<and>
   extractStrikePrice (CHR ''1'' # replicate 306 (CHR ''0'') @ ''k'') = Some PosInf \<and>
   extractStrikePrice ''Bitcoin above $95,000'' = Some (Fin 95000) \<and>
   extractStrikePrice ''BTC 100k by March'' = Some (Fin 100000) \<and>
   extractStrikePrice ''no numbers here'' = None"
proof (intro conjI allI impI)
  show "extractStrikePrice text = spec_extract text"
    by (rule extract_refines)
next
  fix v
  assume "extractStrikePrice text = Some v"
  then show "js_ge v (Fin 0)"
    by (simp add: extract_refines spec_extract_nonneg)
qed (rule extract_overflow extract_product_overflow extract_examples)+

theorem strike_extraction_witness:
  "spec_extract ''100k or $5'' = Some (Fin 5) \<and> js_ge (Fin 5) (Fin 0) \<and>
   spec_extract ''Bitcoin above $95,000'' = Some (Fin 95000) \<and>
   spec_extract ''BTC 100k by March'' = Some (Fin 100000) \<and>
   spec_extract ''no numbers here'' = None"
proof -
  have "extractStrikePrice ''100k or $5'' = Some (Fin 5)"
    by (simp add: extract_eval)
  then show ?thesis
    using strike_extraction [of "''100k or $5''"] strike_extraction [of "''Bitcoin above $95,000''"]
      strike_extraction [of "''BTC 100k by March''"] strike_extraction [of "''no numbers here''"]
    by simp
qed

text \<open>
  The claim of C5 as the specification words it fails twice. The text \<open>$0\<close> gives the
  value 0, which is not positive. In \<open>10km or 5k\<close> the first number followed at once by a
  \<open>k\<close> is 10, and the value returned is 5000: the \<open>k\<close> of \<open>km\<close> does not end a
  word.
\<close>

theorem strike_extraction_counterexample:
  "extractStrikePrice ''$0'' = Some (Fin 0) \<and> \<not> js_gt (Fin 0) (Fin 0) \<and>
   extractStrikePrice ''10km or 5k'' = Some (Fin 5000)"
  by (simp add: extract_eval js_gt_def)

section \<open>The result that is published\<close>

text \<open>The events, one after the other.\<close>

lemma run_events_snoc:
  "run_events s (es @ [e]) = (case run_events s es of None \<Rightarrow> None | Some s' \<Rightarrow> step s' e)"
  by (induction es arbitrary: s) (auto split: option.splits)

lemma latest_render_snoc_Render: "latest_render (es @ [Render c]) = Some c"
  by (induction es rule: latest_render.induct) simp_all

lemma latest_render_snoc_Fires: "latest_render (es @ [TimerFires i]) = latest_render es"
  by (induction es rule: latest_render.induct) simp_all

lemma cleanup_clears:
  assumes "one_timer evs s"
  shows "timers (cleanup s) = []"
  using assms by (auto simp: one_timer_def cleanup_def clear_timeout_def split: option.splits)

lemma run_effect_one_timer:
  assumes "timers s = []"
  shows "one_timer (evs @ [Render c]) (run_effect c s)"
proof (cases "\<not> truthy (c_strikePrice c) \<or> c_relevantOption c = None")
  case True
  with assms have "timers (run_effect c s) = []"
    by (simp add: run_effect_def)
  then show ?thesis
    by (simp add: one_timer_def)
next
  case False
  with assms have "timers (run_effect c s) = [(next_timer s, c)]"
    "cleanup_timer (run_effect c s) = Some (next_timer s)"
    by (simp_all add: run_effect_def set_timeout_def)
  then show ?thesis
    by (simp add: one_timer_def latest_render_snoc_Render)
qed

lemma one_timer_step:
  assumes inv: "one_timer evs s" and st: "step s e = Some s'"
  shows "one_timer (evs @ [e]) s'"
proof (cases e)
  case (Render c)
  have "timers (cleanup s) = []"
    using inv by (rule cleanup_clears)
  then have "one_timer (evs @ [Render c]) (run_effect c (cleanup s))"
    by (rule run_effect_one_timer)
  moreover from st Render have "s' = run_effect c (cleanup s)"
    by simp
  ultimately show ?thesis
    using Render by simp
next
  case (TimerFires i)
  with inv st show ?thesis
    by (auto simp: one_timer_def clear_timeout_def latest_render_snoc_Fires
        split: option.splits if_splits)
qed

lemma one_timer_reachable:
  "run_events (initial_state ds) evs = Some s \<Longrightarrow> one_timer evs s"
proof (induction evs arbitrary: s rule: rev_induct)
  case Nil
  then show ?case by (auto simp: one_timer_def initial_state_def)
next
  case (snoc e evs)
  from snoc.prems obtain s1 where
    "run_events (initial_state ds) evs = Some s1" "step s1 e = Some s"
    by (auto simp: run_events_snoc split: option.splits)
  with snoc.IH show ?case
    by (blast intro: one_timer_step)
qed


lemma fire_outcome:
  assumes inv: "one_timer evs s" and st: "step s (TimerFires i) = Some s'"
  shows "s' = s \<or>
    (\<exists>c prob ds'. timers s = [(i, c)] \<and> latest_render evs = Some c \<and>
       timer_callback c (draws s) = Some (prob, ds') \<and> resultProb s' = Some prob \<and> timers s' = [])"
proof (cases "map_of (timers s) i")
  case None
  with st show ?thesis by simp
next
  case (Some c)
  with inv have t: "timers s = [(i, c)]" and l: "latest_render evs = Some c"
    by (auto simp: one_timer_def split: if_splits)
  from st Some obtain prob ds' where
    cb: "timer_callback c (draws s) = Some (prob, ds')" and
    s': "s' = (clear_timeout i s)\<lparr>resultProb := Some prob, calculating := False, draws := ds'\<rparr>"
    by (auto split: option.splits)
  from s' t have "resultProb s' = Some prob" "timers s' = []"
    by (simp_all add: clear_timeout_def)
  with t l cb show ?thesis by blast
qed

lemma run_effect_valid:
  assumes "truthy (c_strikePrice c) \<and> c_relevantOption c \<noteq> None"
  shows "run_effect c s =
    (set_timeout c (s\<lparr>calculating := True\<rparr>))\<lparr>cleanup_timer := Some (next_timer s)\<rparr>"
  using assms by (auto simp: run_effect_def)

lemma two_renders:
  assumes inv: "one_timer evs s"
    and a: "truthy (c_strikePrice a) \<and> c_relevantOption a \<noteq> None"
    and b: "truthy (c_strikePrice b) \<and> c_relevantOption b \<noteq> None"
  shows "\<exists>s2. run_events s [Render a, Render b] = Some s2 \<and>
      timers s2 = [(Suc (next_timer s), b)] \<and> resultProb s2 = resultProb s \<and> draws s2 = draws s"
proof -
  let ?s0 = "cleanup s"
  let ?s1 = "run_effect a ?s0"
  let ?s2 = "run_effect b (cleanup ?s1)"
  have t0: "timers ?s0 = []"
    using inv by (rule cleanup_clears)
  have keep0: "next_timer ?s0 = next_timer s" "resultProb ?s0 = resultProb s" "draws ?s0 = draws s"
    by (simp_all add: cleanup_def clear_timeout_def split: option.splits)
  have s1: "timers ?s1 = [(next_timer s, a)]" "cleanup_timer ?s1 = Some (next_timer s)"
    "next_timer ?s1 = Suc (next_timer s)" "resultProb ?s1 = resultProb s" "draws ?s1 = draws s"
    using a t0 keep0 by (simp_all add: run_effect_valid set_timeout_def)
  have c1: "timers (cleanup ?s1) = []" "next_timer (cleanup ?s1) = Suc (next_timer s)"
    "resultProb (cleanup ?s1) = resultProb s" "draws (cleanup ?s1) = draws s"
    using s1 by (simp_all add: cleanup_def clear_timeout_def)
  have "timers ?s2 = [(Suc (next_timer s), b)]" "resultProb ?s2 = resultProb s" "draws ?s2 = draws s"
    using b c1 by (simp_all add: run_effect_valid set_timeout_def)
  moreover have "run_events s [Render a, Render b] = Some ?s2"
    by simp
  ultimately show ?thesis by blast
qed

text \<open>
  C3. In every state the panel reaches, at most one timer is outstanding, and it holds
  the values of the latest render: the cleanup that runs before each effect clears the
  timer of the render before. So whichever timer expires, either its callback publishes
  the probability computed from the values of the latest render, or (the timer was
  cleared, or has run) nothing is written. If a render \<open>a\<close> is followed by a render
  \<open>b\<close> before any timer has expired, the expiry of the timer of \<open>b\<close> publishes the
  result of \<open>b\<close>, and the expiry of any other timer, that of \<open>a\<close> included, leaves
  the published result as it was, with the timer of \<open>b\<close> still outstanding.
\<close>

theorem only_latest_published:
  assumes "run_events (initial_state ds) evs = Some s"
  shows
    "(\<forall>i c. (i, c) \<in> set (timers s) \<longrightarrow> timers s = [(i, c)] \<and> latest_render evs = Some c) \<and>
     (\<forall>i s'. step s (TimerFires i) = Some s' \<longrightarrow>
        s' = s \<or>
        (\<exists>c prob ds'. timers s = [(i, c)] \<and> latest_render evs = Some c \<and>
           timer_callback c (draws s) = Some (prob, ds') \<and> resultProb s' = Some prob \<and>
           timers s' = [])) \<and>
     (\<forall>a b i s'.
        truthy (c_strikePrice a) \<and> c_relevantOption a \<noteq> None \<and>
        truthy (c_strikePrice b) \<and> c_relevantOption b \<noteq> None \<and>
        run_events s [Render a, Render b, TimerFires i] = Some s' \<longrightarrow>
        (i = Suc (next_timer s) \<and>
         (\<exists>prob ds'. timer_callback b (draws s) = Some (prob, ds') \<and> resultProb s' = Some prob \<and>
            timers s' = [])) \<or>
        (i \<noteq> Suc (next_timer s) \<and> resultProb s' = resultProb s \<and>
         timers s' = [(Suc (next_timer s), b)]))"
proof -
  have inv: "one_timer evs s"
    using assms by (rule one_timer_reachable)
  have only: "\<forall>i c. (i, c) \<in> set (timers s) \<longrightarrow> timers s = [(i, c)] \<and> latest_render evs = Some c"
    using inv by (auto simp: one_timer_def)
  have expiry: "\<forall>i s'. step s (TimerFires i) = Some s' \<longrightarrow>
        s' = s \<or>
        (\<exists>c prob ds'. timers s = [(i, c)] \<and> latest_render evs = Some c \<and>
           timer_callback c (draws s) = Some (prob, ds') \<and> resultProb s' = Some prob \<and>
           timers s' = [])"
    using fire_outcome [OF inv] by blast
  have superseded: "(i = Suc (next_timer s) \<and>
         (\<exists>prob ds'. timer_callback b (draws s) = Some (prob, ds') \<and> resultProb s' = Some prob \<and>
            timers s' = [])) \<or>
        (i \<noteq> Suc (next_timer s) \<and> resultProb s' = resultProb s \<and>
         timers s' = [(Suc (next_timer s), b)])"
    if *: "truthy (c_strikePrice a) \<and> c_relevantOption a \<noteq> None \<and>
        truthy (c_strikePrice b) \<and> c_relevantOption b \<noteq> None \<and>
        run_events s [Render a, Render b, TimerFires i] = Some s'" for a b i s'
  proof -
    from * obtain s2 where
      s2: "run_events s [Render a, Render b] = Some s2" "timers s2 = [(Suc (next_timer s), b)]"
        "resultProb s2 = resultProb s" "draws s2 = draws s"
      using two_renders [OF inv, of a b] by blast
    have "run_events s ([Render a, Render b] @ [TimerFires i]) = Some s'"
      using * by simp
    with s2(1) have fire: "step s2 (TimerFires i) = Some s'"
      by (simp only: run_events_snoc option.case)
    show ?thesis
    proof (cases "i = Suc (next_timer s)")
      case True
      with fire s2 show ?thesis
        by (auto simp: clear_timeout_def split: option.splits)
    next
      case False
      with fire s2 show ?thesis
        by auto
    qed
  qed
  from only expiry superseded show ?thesis
    by blast
qed

text \<open>Two renders in a row, 99 then 101 for the spot, and the expiry of each timer.\<close>

lemma example_callbacks:
  "timer_callback (example_closure 99) ds = Some (Fin 0, ds)"
  "timer_callback (example_closure 101) ds = Some (Fin 1, ds)"
  by (simp_all add: timer_callback_def example_closure_def calculateBlackScholesProb_def js_gt_def)

lemma example_valid:
  "truthy (c_strikePrice (example_closure x)) \<and> c_relevantOption (example_closure x) \<noteq> None"
  by (simp add: example_closure_def truthy_def)

lemma example_steps:
  "step (initial_state []) (Render (example_closure 99)) =
     Some \<lparr>timers = [(0, example_closure 99)], next_timer = 1, cleanup_timer = Some 0,
       resultProb = None, calculating = True, draws = []\<rparr>"
  "step \<lparr>timers = [(0, example_closure 99)], next_timer = 1, cleanup_timer = Some 0,
       resultProb = None, calculating = True, draws = []\<rparr> (Render (example_closure 101)) =
     Some \<lparr>timers = [(1, example_closure 101)], next_timer = 2, cleanup_timer = Some 1,
       resultProb = None, calculating = True, draws = []\<rparr>"
  "step \<lparr>timers = [(1, example_closure 101)], next_timer = 2, cleanup_timer = Some 1,
       resultProb = None, calculating = True, draws = []\<rparr> (TimerFires 0) =
     Some \<lparr>timers = [(1, example_closure 101)], next_timer = 2, cleanup_timer = Some 1,
       resultProb = None, calculating = True, draws = []\<rparr>"
  "step \<lparr>timers = [(1, example_closure 101)], next_timer = 2, cleanup_timer = Some 1,
       resultProb = None, calculating = True, draws = []\<rparr> (TimerFires 1) =
     Some \<lparr>timers = [], next_timer = 2, cleanup_timer = Some 1,
       resultProb = Some (Fin 1), calculating = False, draws = []\<rparr>"
  by (simp_all add: initial_state_def run_effect_valid example_valid cleanup_def set_timeout_def
      clear_timeout_def example_callbacks)

lemma example_stale:
  "run_events (initial_state [])
     [Render (example_closure 99), Render (example_closure 101), TimerFires 0] =
     Some \<lparr>timers = [(1, example_closure 101)], next_timer = 2, cleanup_timer = Some 1,
       resultProb = None, calculating = True, draws = []\<rparr>"
  by (simp only: run_events.simps example_steps option.case)

lemma example_fresh:
  "run_events (initial_state [])
     [Render (example_closure 99), Render (example_closure 101), TimerFires 0, TimerFires 1] =
     Some \<lparr>timers = [], next_timer = 2, cleanup_timer = Some 1,
       resultProb = Some (Fin 1), calculating = False, draws = []\<rparr>"
  by (simp only: run_events.simps example_steps option.case)

theorem only_latest_published_witness:
  "run_events (initial_state [])
     [Render (example_closure 99), Render (example_closure 101), TimerFires 0] =
     Some \<lparr>timers = [(1, example_closure 101)], next_timer = 2, cleanup_timer = Some 1,
       resultProb = None, calculating = True, draws = []\<rparr> \<and>
   run_events (initial_state [])
     [Render (example_closure 99), Render (example_closure 101), TimerFires 0, TimerFires 1] =
     Some \<lparr>timers = [], next_timer = 2, cleanup_timer = Some 1,
       resultProb = Some (Fin 1), calculating = False, draws = []\<rparr> \<and>
   latest_render [Render (example_closure 99), Render (example_closure 101), TimerFires 0] =
     Some (example_closure 101) \<and>
   timer_callback (example_closure 99) [] = Some (Fin 0, [])"
  using only_latest_published [OF example_stale] example_stale example_fresh example_callbacks
  by simp

text \<open>
  The cleanup is what discards the superseded computation: were the effect of the second
  render run without it, the timer of the first render would still be outstanding and its
  expiry would publish the result of the first render.
\<close>

lemma without_cleanup_stale_result:
  "step (run_effect (example_closure 101) (run_effect (example_closure 99) (initial_state [])))
     (TimerFires 0) =
   Some \<lparr>timers = [(1, example_closure 101)], next_timer = 2, cleanup_timer = Some 1,
     resultProb = Some (Fin 0), calculating = False, draws = []\<rparr>"
  by (simp add: initial_state_def run_effect_valid example_valid set_timeout_def clear_timeout_def
      example_callbacks)

end
